theory Spec2Isabelle
  imports Main "HOL-Library.Word" "HOL-Library.Monad_Syntax"
begin

unbundle bit_operations_syntax

section \<open>Fixed-size types (common.hpp)\<close>

text \<open>
  \<^verbatim>\<open>Quantity = uint32_t\<close>, \<^verbatim>\<open>OrderId = uint64_t\<close>, \<^verbatim>\<open>Timestamp = uint64_t\<close> and
  \<^verbatim>\<open>StockLocate = uint16_t\<close> are words of their width, so that every \<open>+\<close> and \<open>-\<close>
  wraps as in C++.  \<^verbatim>\<open>Price = int64_t\<close> is only stored and compared by the book (never
  added), so it is an \<open>int\<close>; the one constant that depends on the width,
  \<^verbatim>\<open>numeric_limits<Price>::max()\<close>, is written out.  \<^verbatim>\<open>Side\<close> is an \<^verbatim>\<open>enum class : char\<close>
  that \<^verbatim>\<open>char_to_side\<close> fills with any byte of the wire, so it is a \<open>char\<close>.
\<close>

type_synonym Price = int
type_synonym Quantity = "32 word"
type_synonym OrderId = "64 word"
type_synonym Timestamp = "64 word"
type_synonym StockLocate = "16 word"
type_synonym Side = char

definition Price_max :: Price where
  "Price_max = 9223372036854775807"

definition Buy :: Side where
  "Buy = CHR ''B''"

definition Sell :: Side where
  "Sell = CHR ''S''"

definition char_to_side :: "char \<Rightarrow> Side" where
  "char_to_side c = c"

definition is_buy :: "Side \<Rightarrow> bool" where
  "is_buy s = (s = Buy)"

section \<open>Message catalogue (message_types.hpp)\<close>

text \<open>
  \<^verbatim>\<open>get_message_size\<close> is a switch over the type tag that returns \<^verbatim>\<open>sizeof\<close> of the packed
  struct; the value of every \<^verbatim>\<open>sizeof\<close> is the one its \<^verbatim>\<open>static_assert\<close> fixes.
\<close>

definition get_message_size :: "char \<Rightarrow> nat" where
  "get_message_size t =
    (if t = CHR ''S'' then 12
     else if t = CHR ''R'' then 39
     else if t = CHR ''H'' then 25
     else if t = CHR ''Y'' then 20
     else if t = CHR ''L'' then 26
     else if t = CHR ''V'' then 35
     else if t = CHR ''W'' then 12
     else if t = CHR ''K'' then 28
     else if t = CHR ''J'' then 35
     else if t = CHR ''h'' then 21
     else if t = CHR ''A'' then 36
     else if t = CHR ''F'' then 40
     else if t = CHR ''E'' then 31
     else if t = CHR ''C'' then 36
     else if t = CHR ''X'' then 23
     else if t = CHR ''D'' then 19
     else if t = CHR ''U'' then 35
     else if t = CHR ''P'' then 44
     else if t = CHR ''Q'' then 40
     else if t = CHR ''B'' then 19
     else if t = CHR ''I'' then 50
     else if t = CHR ''N'' then 20
     else 0)"

text \<open>The 22 type tags of the catalogue, as the specification lists them.\<close>

definition known_tags :: "char list" where
  "known_tags =
    [CHR ''S'', CHR ''R'', CHR ''H'', CHR ''Y'', CHR ''L'', CHR ''V'', CHR ''W'', CHR ''K'',
     CHR ''J'', CHR ''h'', CHR ''A'', CHR ''F'', CHR ''E'', CHR ''C'', CHR ''X'', CHR ''D'',
     CHR ''U'', CHR ''P'', CHR ''Q'', CHR ''B'', CHR ''I'', CHR ''N'']"

section \<open>Decoder (itch_parser.hpp)\<close>

text \<open>
  A buffer \<^verbatim>\<open>const char* data\<close> is the function from offsets to bytes.  The handler is
  an object outside the parser: what the parser does to it is the sequence of calls it
  makes, kept as a trace (latest call last).  A typed callback receives the message view
  (the buffer itself) and the timestamp; the trace records which callback and the
  timestamp.
\<close>

datatype handler_call =
    On_system_event Timestamp
  | On_stock_directory Timestamp
  | On_stock_trading_action Timestamp
  | On_reg_sho_restriction Timestamp
  | On_market_participant_pos Timestamp
  | On_mwcb_decline_level Timestamp
  | On_mwcb_status Timestamp
  | On_ipo_quoting_period Timestamp
  | On_luld_auction_collar Timestamp
  | On_operational_halt Timestamp
  | On_add_order Timestamp
  | On_add_order_mpid Timestamp
  | On_order_executed Timestamp
  | On_order_executed_price Timestamp
  | On_order_cancel Timestamp
  | On_order_delete Timestamp
  | On_order_replace Timestamp
  | On_trade Timestamp
  | On_cross_trade Timestamp
  | On_broken_trade Timestamp
  | On_noii Timestamp
  | On_rpii Timestamp
  | On_parse_error nat string

record ParserStats =
  messages_parsed :: "64 word"
  bytes_processed :: "64 word"
  parse_errors :: "64 word"
  message_type_counts :: "nat \<Rightarrow> 64 word"

record ITCHParser =
  handler :: bool
  stats :: ParserStats
  calls :: "handler_call list"

definition be48_to_host :: "(nat \<Rightarrow> char) \<Rightarrow> nat \<Rightarrow> 64 word" where
  "be48_to_host data off =
     push_bit 40 (of_char (data off)) OR push_bit 32 (of_char (data (off + 1))) OR
     push_bit 24 (of_char (data (off + 2))) OR push_bit 16 (of_char (data (off + 3))) OR
     push_bit 8 (of_char (data (off + 4))) OR of_char (data (off + 5))"

definition extract_timestamp :: "(nat \<Rightarrow> char) \<Rightarrow> Timestamp" where
  "extract_timestamp data = be48_to_host data 5"

text \<open>The typed callback that the switch of \<^verbatim>\<open>dispatch_message\<close> selects for a tag.\<close>

definition typed_callback :: "char \<Rightarrow> Timestamp \<Rightarrow> handler_call option" where
  "typed_callback t ts =
    (if t = CHR ''S'' then Some (On_system_event ts)
     else if t = CHR ''R'' then Some (On_stock_directory ts)
     else if t = CHR ''H'' then Some (On_stock_trading_action ts)
     else if t = CHR ''Y'' then Some (On_reg_sho_restriction ts)
     else if t = CHR ''L'' then Some (On_market_participant_pos ts)
     else if t = CHR ''V'' then Some (On_mwcb_decline_level ts)
     else if t = CHR ''W'' then Some (On_mwcb_status ts)
     else if t = CHR ''K'' then Some (On_ipo_quoting_period ts)
     else if t = CHR ''J'' then Some (On_luld_auction_collar ts)
     else if t = CHR ''h'' then Some (On_operational_halt ts)
     else if t = CHR ''A'' then Some (On_add_order ts)
     else if t = CHR ''F'' then Some (On_add_order_mpid ts)
     else if t = CHR ''E'' then Some (On_order_executed ts)
     else if t = CHR ''C'' then Some (On_order_executed_price ts)
     else if t = CHR ''X'' then Some (On_order_cancel ts)
     else if t = CHR ''D'' then Some (On_order_delete ts)
     else if t = CHR ''U'' then Some (On_order_replace ts)
     else if t = CHR ''P'' then Some (On_trade ts)
     else if t = CHR ''Q'' then Some (On_cross_trade ts)
     else if t = CHR ''B'' then Some (On_broken_trade ts)
     else if t = CHR ''I'' then Some (On_noii ts)
     else if t = CHR ''N'' then Some (On_rpii ts)
     else None)"

definition dispatch_message :: "ITCHParser \<Rightarrow> char \<Rightarrow> Timestamp \<Rightarrow> ITCHParser" where
  "dispatch_message p t ts =
    (if \<not> handler p then p
     else case typed_callback t ts of
            Some c \<Rightarrow> p\<lparr>calls := calls p @ [c]\<rparr>
          | None \<Rightarrow> p\<lparr>calls := calls p @ [On_parse_error (get_message_size t) ''Unhandled message type'']\<rparr>)"

definition count_message :: "ParserStats \<Rightarrow> char \<Rightarrow> nat \<Rightarrow> ParserStats" where
  "count_message s t msg_size =
     s\<lparr>messages_parsed := messages_parsed s + 1,
       bytes_processed := bytes_processed s + of_nat msg_size,
       message_type_counts :=
         (message_type_counts s)(of_char t := message_type_counts s (of_char t) + 1)\<rparr>"

definition parse_message :: "ITCHParser \<Rightarrow> (nat \<Rightarrow> char) \<Rightarrow> nat \<Rightarrow> ITCHParser \<times> nat" where
  "parse_message p data max_len =
    (if max_len = 0 then (p, 0)
     else
       let msg_type = data 0;
           msg_size = get_message_size msg_type
       in if msg_size = 0 then
            (p\<lparr>stats := (stats p)\<lparr>parse_errors := parse_errors (stats p) + 1\<rparr>,
               calls := (if handler p
                         then calls p @ [On_parse_error max_len ''Unknown message type'']
                         else calls p)\<rparr>, 1)
          else if max_len < msg_size then (p, 0)
          else
            let ts = extract_timestamp data;
                p1 = dispatch_message p msg_type ts
            in (p1\<lparr>stats := count_message (stats p1) msg_type msg_size\<rparr>, msg_size))"

text \<open>
  \<^verbatim>\<open>TemplateParser<Handler>\<close>: the handler is always there (it is never tested), the
  switch has no parse-error default, and \<^verbatim>\<open>stats_\<close> is never written.
\<close>

record TemplateParser =
  t_stats :: ParserStats
  t_calls :: "handler_call list"

definition dispatch :: "TemplateParser \<Rightarrow> char \<Rightarrow> Timestamp \<Rightarrow> TemplateParser" where
  "dispatch p t ts =
    (case typed_callback t ts of
       Some c \<Rightarrow> p\<lparr>t_calls := t_calls p @ [c]\<rparr>
     | None \<Rightarrow> p)"

definition template_parse_message ::
  "TemplateParser \<Rightarrow> (nat \<Rightarrow> char) \<Rightarrow> nat \<Rightarrow> TemplateParser \<times> nat" where
  "template_parse_message p data max_len =
    (if max_len = 0 then (p, 0)
     else
       let msg_type = data 0;
           msg_size = get_message_size msg_type
       in if msg_size = 0 \<or> max_len < msg_size then (p, 0)
          else
            let ts = be48_to_host data 5
            in (dispatch p msg_type ts, msg_size))"

definition empty_stats :: ParserStats where
  "empty_stats = \<lparr>messages_parsed = 0, bytes_processed = 0, parse_errors = 0,
                   message_type_counts = (\<lambda>_. 0)\<rparr>"

section \<open>Order index: linear probing hash map (class OrderMap of order_book.hpp)\<close>

text \<open>
  An \<^verbatim>\<open>Order*\<close> is \<open>Null\<close> or the address of an order record.  An \<^verbatim>\<open>Entry\<close> is the pair
  of its \<^verbatim>\<open>id\<close> and its \<^verbatim>\<open>order\<close>; \<^verbatim>\<open>id == 0\<close> marks an empty slot.  The \<^verbatim>\<open>size_t\<close> values
  \<^verbatim>\<open>capacity_\<close>, \<^verbatim>\<open>mask_\<close>, \<^verbatim>\<open>load_\<close> and the slot indices are natural numbers: a table
  of 16-byte entries that fits a 64-bit address space keeps all of them below \<open>2 ^ 60\<close>,
  so no addition or doubling on them wraps; the one subtraction that could wrap,
  \<^verbatim>\<open>load_--\<close>, is written out.  \<^verbatim>\<open>hash(id)\<close> is the cast of the 64-bit id to \<^verbatim>\<open>size_t\<close>.

  Every \<^verbatim>\<open>while\<close> loop of the class is a \<open>partial_function\<close> in the option monad: \<open>None\<close>
  is a loop that never exits.  The index of every \<^verbatim>\<open>entries_[...]\<close> access is the result
  of \<^verbatim>\<open>& mask_\<close>, and \<^verbatim>\<open>resize\<close>, the only writer of the three fields, keeps
  \<^verbatim>\<open>mask_ == capacity_ - 1 == entries_.size() - 1\<close>.
\<close>

datatype ptr = Null | Addr nat

type_synonym Entry = "OrderId \<times> ptr"

record OrderMap =
  entries :: "Entry list"
  capacity :: nat
  mask_v :: nat
  load :: nat

definition hash :: "OrderId \<Rightarrow> nat" where
  "hash oid = unat oid"

definition dec_size_t :: "nat \<Rightarrow> nat" where
  "dec_size_t n = (if n = 0 then 2 ^ 64 - 1 else n - 1)"

partial_function (option) find_loop :: "Entry list \<Rightarrow> nat \<Rightarrow> OrderId \<Rightarrow> nat \<Rightarrow> ptr option" where
  [code]: "find_loop es msk oid idx =
     (if fst (es ! idx) \<noteq> 0 then
        (if fst (es ! idx) = oid then Some (snd (es ! idx))
         else find_loop es msk oid ((idx + 1) AND msk))
      else Some Null)"

definition OrderMap_find :: "OrderMap \<Rightarrow> OrderId \<Rightarrow> ptr option" where
  "OrderMap_find m oid = find_loop (entries m) (mask_v m) oid (hash oid AND mask_v m)"

text \<open>
  The probe \<^verbatim>\<open>while (entries_[idx].id != 0) idx = (idx + 1) & mask_;\<close> of \<^verbatim>\<open>put\<close> and of
  the re-insertion in \<^verbatim>\<open>resize\<close>.
\<close>

partial_function (option) probe_empty :: "Entry list \<Rightarrow> nat \<Rightarrow> nat \<Rightarrow> nat option" where
  [code]: "probe_empty es msk idx =
     (if fst (es ! idx) \<noteq> 0 then probe_empty es msk ((idx + 1) AND msk) else Some idx)"

text \<open>\<^verbatim>\<open>std::size_t cap = 1; while (cap < new_cap) cap <<= 1;\<close>\<close>

partial_function (option) grow_cap :: "nat \<Rightarrow> nat \<Rightarrow> nat option" where
  [code]: "grow_cap cap new_cap = (if cap < new_cap then grow_cap (2 * cap) new_cap else Some cap)"

text \<open>The loop of \<^verbatim>\<open>resize\<close> over the old entries; its state is the new vector and \<^verbatim>\<open>load_\<close>.\<close>

fun reinsert :: "Entry list \<Rightarrow> nat \<Rightarrow> Entry list \<times> nat \<Rightarrow> (Entry list \<times> nat) option" where
  "reinsert [] msk (es, ld) = Some (es, ld)"
| "reinsert (e # old) msk (es, ld) =
     (if fst e \<noteq> 0 then
        do { idx \<leftarrow> probe_empty es msk (hash (fst e) AND msk);
             reinsert old msk (es[idx := e], ld + 1) }
      else reinsert old msk (es, ld))"

definition OrderMap_resize :: "OrderMap \<Rightarrow> nat \<Rightarrow> OrderMap option" where
  "OrderMap_resize m new_cap =
     do { cap \<leftarrow> grow_cap 1 new_cap;
          (es, ld) \<leftarrow> reinsert (entries m) (cap - 1) (replicate cap (0, Null), 0);
          Some \<lparr>entries = es, capacity = cap, mask_v = cap - 1, load = ld\<rparr> }"

text \<open>The constructor: \<^verbatim>\<open>resize(initial_capacity)\<close> on the default-initialised members.\<close>

definition OrderMap_new :: "nat \<Rightarrow> OrderMap option" where
  "OrderMap_new initial_capacity =
     OrderMap_resize \<lparr>entries = [], capacity = 0, mask_v = 0, load = 0\<rparr> initial_capacity"

definition OrderMap_put :: "OrderMap \<Rightarrow> OrderId \<Rightarrow> ptr \<Rightarrow> OrderMap option" where
  "OrderMap_put m oid order =
     do { m1 \<leftarrow> (if load m * 2 \<ge> capacity m then OrderMap_resize m (capacity m * 2)
                 else Some m);
          idx \<leftarrow> probe_empty (entries m1) (mask_v m1) (hash oid AND mask_v m1);
          Some (m1\<lparr>entries := (entries m1)[idx := (oid, order)], load := load m1 + 1\<rparr>) }"

text \<open>
  The backward shift of \<^verbatim>\<open>remove\<close>.  \<^verbatim>\<open>entries_[next].id = 0\<close> clears the id only: the
  slot keeps its stale \<^verbatim>\<open>order\<close> pointer.
\<close>

partial_function (option) backshift :: "Entry list \<Rightarrow> nat \<Rightarrow> nat \<Rightarrow> nat \<Rightarrow> Entry list option" where
  [code]: "backshift es msk cur nxt =
     (if fst (es ! nxt) \<noteq> 0 then
        (let desired = hash (fst (es ! nxt)) AND msk in
         if \<not> ((cur < nxt \<and> (desired \<le> cur \<or> desired > nxt)) \<or>
                (cur > nxt \<and> (desired \<le> cur \<and> desired > nxt)))
         then backshift es msk cur ((nxt + 1) AND msk)
         else backshift (es[cur := es ! nxt, nxt := (0, snd (es ! nxt))]) msk nxt
                ((nxt + 1) AND msk))
      else Some es)"

partial_function (option) remove_loop ::
  "Entry list \<Rightarrow> nat \<Rightarrow> nat \<Rightarrow> OrderId \<Rightarrow> nat \<Rightarrow> (Entry list \<times> nat) option" where
  [code]: "remove_loop es msk ld oid idx =
     (if fst (es ! idx) \<noteq> 0 then
        (if fst (es ! idx) = oid then
           do { es' \<leftarrow> backshift (es[idx := (0, snd (es ! idx))]) msk idx ((idx + 1) AND msk);
                Some (es', dec_size_t ld) }
         else remove_loop es msk ld oid ((idx + 1) AND msk))
      else Some (es, ld))"

definition OrderMap_remove :: "OrderMap \<Rightarrow> OrderId \<Rightarrow> OrderMap option" where
  "OrderMap_remove m oid =
     do { (es, ld) \<leftarrow> remove_loop (entries m) (mask_v m) (load m) oid (hash oid AND mask_v m);
          Some (m\<lparr>entries := es, load := ld\<rparr>) }"

text \<open>
  What a table holds, read off its slots: the map from each nonzero id to the pointer
  stored with it.
\<close>

definition OrderMap_abs :: "OrderMap \<Rightarrow> OrderId \<Rightarrow> ptr option" where
  "OrderMap_abs m = map_of (filter (\<lambda>e. fst e \<noteq> 0) (entries m))"

text \<open>
  Cyclic arithmetic on the slots of a table of \<open>n\<close> slots: \<open>cdist n a b\<close> is the number of
  steps that a probe starting at slot \<open>a\<close> takes to reach slot \<open>b\<close>.
\<close>

definition cdist :: "nat \<Rightarrow> nat \<Rightarrow> nat \<Rightarrow> nat" where
  "cdist n a b = (if a \<le> b then b - a else n + b - a)"

definition csucc :: "nat \<Rightarrow> nat \<Rightarrow> nat" where
  "csucc n a = (if a + 1 < n then a + 1 else 0)"

text \<open>
  The probe invariant of a table with \<open>n\<close> slots and mask \<open>msk\<close>: every slot between the
  home slot of a stored id and the slot that holds it is occupied.
\<close>

definition probe_ok :: "Entry list \<Rightarrow> nat \<Rightarrow> nat \<Rightarrow> bool" where
  "probe_ok es n msk \<longleftrightarrow>
     (\<forall>i<n. fst (es ! i) \<noteq> 0 \<longrightarrow>
        (\<forall>s<n. cdist n (hash (fst (es ! i)) AND msk) s < cdist n (hash (fst (es ! i)) AND msk) i
               \<longrightarrow> fst (es ! s) \<noteq> 0))"

definition keys_inj :: "Entry list \<Rightarrow> bool" where
  "keys_inj es \<longleftrightarrow> distinct (filter (\<lambda>k. k \<noteq> 0) (map fst es))"

definition live :: "Entry list \<Rightarrow> Entry set" where
  "live es = {e \<in> set es. fst e \<noteq> 0}"

definition table_geom :: "nat \<Rightarrow> nat \<Rightarrow> bool" where
  "table_geom n msk \<longleftrightarrow> (\<exists>k. n = 2 ^ Suc k) \<and> msk = n - 1"

definition occupied :: "Entry list \<Rightarrow> nat" where
  "occupied es = length (filter (\<lambda>e. fst e \<noteq> 0) es)"

text \<open>
  The state of the backward shift: the hole is at \<open>cur\<close>; every slot strictly between
  \<open>cur\<close> and \<open>nxt\<close> is occupied by an id whose home slot lies after the hole; and on the
  probe path of every stored id the only slot that may be empty is the hole.
\<close>

definition shift_inv :: "Entry list \<Rightarrow> nat \<Rightarrow> nat \<Rightarrow> nat \<Rightarrow> nat \<Rightarrow> bool" where
  "shift_inv es n msk cur nxt \<longleftrightarrow>
     fst (es ! cur) = 0 \<and>
     (\<forall>i<n. 0 < cdist n cur i \<and> cdist n cur i < cdist n cur nxt \<longrightarrow>
        fst (es ! i) \<noteq> 0 \<and> cdist n (hash (fst (es ! i)) AND msk) i < cdist n cur i) \<and>
     (\<forall>i<n. fst (es ! i) \<noteq> 0 \<longrightarrow>
        (\<forall>s<n. cdist n (hash (fst (es ! i)) AND msk) s < cdist n (hash (fst (es ! i)) AND msk) i
               \<longrightarrow> fst (es ! s) \<noteq> 0 \<or> s = cur))"

definition OrderMap_inv :: "OrderMap \<Rightarrow> bool" where
  "OrderMap_inv m \<longleftrightarrow>
     length (entries m) = capacity m \<and> table_geom (capacity m) (mask_v m) \<and>
     2 * load m \<le> capacity m \<and>
     occupied (entries m) \<le> load m \<and> keys_inj (entries m) \<and>
     probe_ok (entries m) (capacity m) (mask_v m)"

text \<open>
  The states of an \<^verbatim>\<open>OrderMap\<close> reachable from its constructor (with an initial capacity of
  at least 2; the default is 100000) by \<^verbatim>\<open>put\<close> of an id that is nonzero and not stored,
  and by \<^verbatim>\<open>remove\<close>.  The second argument records, for every id, the order reference that
  the last \<^verbatim>\<open>put\<close> stored with it, if the id has not been removed since.
\<close>

inductive OrderMap_reach :: "OrderMap \<Rightarrow> (OrderId \<Rightarrow> ptr option) \<Rightarrow> bool" where
  reach_new: "2 \<le> c \<Longrightarrow> OrderMap_new c = Some m \<Longrightarrow> OrderMap_reach m Map.empty"
| reach_put: "OrderMap_reach m f \<Longrightarrow> k \<noteq> 0 \<Longrightarrow> f k = None \<Longrightarrow> OrderMap_put m k p = Some m' \<Longrightarrow>
     OrderMap_reach m' (f(k \<mapsto> p))"
| reach_remove: "OrderMap_reach m f \<Longrightarrow> OrderMap_remove m k = Some m' \<Longrightarrow>
     OrderMap_reach m' (f(k := None))"

section \<open>Order records and the object pool (order_book.hpp)\<close>

text \<open>
  The fields of \<^verbatim>\<open>struct Order\<close>.  The intrusive links \<^verbatim>\<open>next\<close> and \<^verbatim>\<open>prev\<close> are not
  fields of the model: the doubly-linked list of a price level is the sequence of the
  addresses of its orders from \<^verbatim>\<open>head_\<close> to \<^verbatim>\<open>tail_\<close> (see \<open>PriceLevel\<close> below).
\<close>

record Order =
  order_id :: OrderId
  price :: Price
  quantity :: Quantity
  original_qty :: Quantity
  order_locate :: StockLocate
  side :: Side
  timestamp :: Timestamp

text \<open>
  \<^verbatim>\<open>ObjectPool<Order, BlockSize>\<close>.  The objects of all blocks live in \<open>store\<close>, indexed by
  address: object \<open>i\<close> of block \<open>j\<close> has the address \<open>j * BlockSize + i\<close>, and \<^verbatim>\<open>blocks_\<close> is
  represented by the number of blocks.  \<^verbatim>\<open>new T[BlockSize]\<close> default-initialises the
  orders, which leaves their fields indeterminate: \<open>allocate_block\<close> does not touch
  \<open>store\<close>.  The template parameter \<^verbatim>\<open>BlockSize\<close> (default 4096) is a field.
\<close>

record ObjectPool =
  block_size :: nat
  blocks :: nat
  free_list :: "nat list"
  store :: "nat \<Rightarrow> Order"

definition allocate_block :: "ObjectPool \<Rightarrow> ObjectPool" where
  "allocate_block p =
     p\<lparr>blocks := blocks p + 1,
       free_list := free_list p @ [blocks p * block_size p ..< (blocks p + 1) * block_size p]\<rparr>"

definition ObjectPool_new :: "nat \<Rightarrow> (nat \<Rightarrow> Order) \<Rightarrow> ObjectPool" where
  "ObjectPool_new bs mem =
     allocate_block \<lparr>block_size = bs, blocks = 0, free_list = [], store = mem\<rparr>"

definition acquire :: "ObjectPool \<Rightarrow> nat \<times> ObjectPool" where
  "acquire p =
     (let p1 = (if free_list p = [] then allocate_block p else p)
      in (last (free_list p1), p1\<lparr>free_list := butlast (free_list p1)\<rparr>))"

definition release :: "ObjectPool \<Rightarrow> nat \<Rightarrow> ObjectPool" where
  "release p obj = p\<lparr>free_list := free_list p @ [obj]\<rparr>"

section \<open>Price levels\<close>

text \<open>
  \<^verbatim>\<open>class PriceLevel\<close>: \<open>pl_orders\<close> is the linked list from \<^verbatim>\<open>head_\<close> to \<^verbatim>\<open>tail_\<close>;
  \<^verbatim>\<open>add_order\<close> links at the tail, \<^verbatim>\<open>remove_order\<close> unlinks the order.  The methods read
  \<^verbatim>\<open>order->quantity\<close> through the pointer: the model passes the store.  \<^verbatim>\<open>order_count_\<close>
  is a \<^verbatim>\<open>size_t\<close> that counts linked orders of 64 bytes each, so \<open>++\<close> cannot wrap;
  \<open>--\<close> is \<open>dec_size_t\<close>.
\<close>

record PriceLevel =
  pl_price :: Price
  pl_orders :: "nat list"
  pl_total_quantity :: Quantity
  pl_order_count :: nat

definition PriceLevel_new :: "Price \<Rightarrow> PriceLevel" where
  "PriceLevel_new p = \<lparr>pl_price = p, pl_orders = [], pl_total_quantity = 0, pl_order_count = 0\<rparr>"

definition PriceLevel_add_order :: "PriceLevel \<Rightarrow> (nat \<Rightarrow> Order) \<Rightarrow> nat \<Rightarrow> PriceLevel" where
  "PriceLevel_add_order lv st a =
     lv\<lparr>pl_orders := pl_orders lv @ [a],
        pl_total_quantity := pl_total_quantity lv + quantity (st a),
        pl_order_count := pl_order_count lv + 1\<rparr>"

definition PriceLevel_remove_order :: "PriceLevel \<Rightarrow> (nat \<Rightarrow> Order) \<Rightarrow> nat \<Rightarrow> PriceLevel" where
  "PriceLevel_remove_order lv st a =
     lv\<lparr>pl_total_quantity := pl_total_quantity lv - quantity (st a),
        pl_order_count := dec_size_t (pl_order_count lv),
        pl_orders := remove1 a (pl_orders lv)\<rparr>"

text \<open>
  \<^verbatim>\<open>reduce_quantity\<close> starts with \<^verbatim>\<open>assert(order->quantity >= delta)\<close>; a failed assertion
  aborts, which is the result \<open>None\<close>.
\<close>

definition PriceLevel_reduce_quantity ::
  "PriceLevel \<Rightarrow> (nat \<Rightarrow> Order) \<Rightarrow> nat \<Rightarrow> Quantity \<Rightarrow> (PriceLevel \<times> (nat \<Rightarrow> Order)) option" where
  "PriceLevel_reduce_quantity lv st a delta =
     (if \<not> quantity (st a) \<ge> delta then None
      else
        let st1 = st(a := (st a)\<lparr>quantity := quantity (st a) - delta\<rparr>);
            lv1 = lv\<lparr>pl_total_quantity := pl_total_quantity lv - delta\<rparr>
        in if quantity (st1 a) = 0 then Some (PriceLevel_remove_order lv1 st1 a, st1)
           else Some (lv1, st1))"

definition PriceLevel_empty :: "PriceLevel \<Rightarrow> bool" where
  "PriceLevel_empty lv = (pl_order_count lv = 0)"

section \<open>The two ordered maps of a book\<close>

text \<open>
  \<^verbatim>\<open>std::map<Price, PriceLevel, std::greater<Price>> bids_\<close> and
  \<^verbatim>\<open>std::map<Price, PriceLevel, std::less<Price>> asks_\<close> are association lists kept in
  iteration order, so that \<^verbatim>\<open>begin()\<close> is the head.  \<open>before buy\<close> is the comparator of the
  side.  \<open>map_put\<close> stores a level under a key (\<^verbatim>\<open>emplace\<close> of a new key at its place in
  the order, or the update of \<^verbatim>\<open>it->second\<close> in place); \<open>map_erase\<close> is \<^verbatim>\<open>erase(it)\<close>.
\<close>

type_synonym levels = "(Price \<times> PriceLevel) list"

definition before :: "bool \<Rightarrow> Price \<Rightarrow> Price \<Rightarrow> bool" where
  "before buy a b = (if buy then a > b else a < b)"

fun map_put :: "bool \<Rightarrow> Price \<Rightarrow> PriceLevel \<Rightarrow> levels \<Rightarrow> levels" where
  "map_put buy k v [] = [(k, v)]"
| "map_put buy k v ((k', v') # xs) =
     (if k = k' then (k, v) # xs
      else if before buy k k' then (k, v) # (k', v') # xs
      else (k', v') # map_put buy k v xs)"

definition map_erase :: "Price \<Rightarrow> levels \<Rightarrow> levels" where
  "map_erase k xs = filter (\<lambda>x. fst x \<noteq> k) xs"

text \<open>
  The three blocks that \<^verbatim>\<open>add_order\<close>, \<^verbatim>\<open>execute_order\<close> and \<^verbatim>\<open>delete_order\<close> apply to
  \<^verbatim>\<open>bids_\<close> or to \<^verbatim>\<open>asks_\<close>: find the level of the price (creating it for an add), call
  the method of the level, erase the level if it is empty.  When \<^verbatim>\<open>find\<close> returns \<^verbatim>\<open>end()\<close>
  the last two do nothing.
\<close>

definition side_add :: "bool \<Rightarrow> Price \<Rightarrow> nat \<Rightarrow> (nat \<Rightarrow> Order) \<Rightarrow> levels \<Rightarrow> levels" where
  "side_add buy p a st xs =
     (let lv = (case map_of xs p of None \<Rightarrow> PriceLevel_new p | Some l \<Rightarrow> l)
      in map_put buy p (PriceLevel_add_order lv st a) xs)"

definition side_reduce ::
  "bool \<Rightarrow> Price \<Rightarrow> nat \<Rightarrow> Quantity \<Rightarrow> (nat \<Rightarrow> Order) \<Rightarrow> levels \<Rightarrow> (levels \<times> (nat \<Rightarrow> Order)) option" where
  "side_reduce buy p a delta st xs =
     (case map_of xs p of
        None \<Rightarrow> Some (xs, st)
      | Some lv \<Rightarrow>
          do { (lv', st') \<leftarrow> PriceLevel_reduce_quantity lv st a delta;
               Some (if PriceLevel_empty lv' then map_erase p xs else map_put buy p lv' xs, st') })"

definition side_remove :: "bool \<Rightarrow> Price \<Rightarrow> nat \<Rightarrow> (nat \<Rightarrow> Order) \<Rightarrow> levels \<Rightarrow> levels" where
  "side_remove buy p a st xs =
     (case map_of xs p of
        None \<Rightarrow> xs
      | Some lv \<Rightarrow>
          (let lv' = PriceLevel_remove_order lv st a
           in if PriceLevel_empty lv' then map_erase p xs else map_put buy p lv' xs))"

section \<open>Order book of one symbol\<close>

record BBO =
  bid_price :: Price
  ask_price :: Price
  bid_quantity :: Quantity
  ask_quantity :: Quantity

definition BBO_new :: BBO where
  "BBO_new = \<lparr>bid_price = 0, ask_price = Price_max, bid_quantity = 0, ask_quantity = 0\<rparr>"

record OrderBook =
  stock_locate :: StockLocate
  bids :: levels
  asks :: levels
  orders :: OrderMap
  bbo :: BBO
  order_count :: nat

text \<open>
  \<^verbatim>\<open>OrderBook(stock_locate)\<close>: all members but \<^verbatim>\<open>stock_locate_\<close> are default-initialised;
  \<^verbatim>\<open>orders_\<close> by \<^verbatim>\<open>OrderMap(100000)\<close>.
\<close>

definition OrderBook_new :: "StockLocate \<Rightarrow> OrderBook option" where
  "OrderBook_new l =
     do { om \<leftarrow> OrderMap_new 100000;
          Some \<lparr>stock_locate = l, bids = [], asks = [], orders = om, bbo = BBO_new,
                order_count = 0\<rparr> }"

definition update_best_bid :: "OrderBook \<Rightarrow> OrderBook" where
  "update_best_bid b =
     (case bids b of
        [] \<Rightarrow> b\<lparr>bbo := (bbo b)\<lparr>bid_price := 0, bid_quantity := 0\<rparr>\<rparr>
      | best # _ \<Rightarrow>
          b\<lparr>bbo := (bbo b)\<lparr>bid_price := pl_price (snd best),
                             bid_quantity := pl_total_quantity (snd best)\<rparr>\<rparr>)"

definition update_best_ask :: "OrderBook \<Rightarrow> OrderBook" where
  "update_best_ask b =
     (case asks b of
        [] \<Rightarrow> b\<lparr>bbo := (bbo b)\<lparr>ask_price := Price_max, ask_quantity := 0\<rparr>\<rparr>
      | best # _ \<Rightarrow>
          b\<lparr>bbo := (bbo b)\<lparr>ask_price := pl_price (snd best),
                             ask_quantity := pl_total_quantity (snd best)\<rparr>\<rparr>)"

definition get_order :: "OrderBook \<Rightarrow> OrderId \<Rightarrow> ptr option" where
  "get_order b oid = OrderMap_find (orders b) oid"

text \<open>
  The mutating operations return their C++ result, the book and the pool; \<open>None\<close> is an
  operation that does not return.
\<close>

definition add_order ::
  "OrderBook \<Rightarrow> OrderId \<Rightarrow> Side \<Rightarrow> Price \<Rightarrow> Quantity \<Rightarrow> Timestamp \<Rightarrow> ObjectPool
     \<Rightarrow> (ptr \<times> OrderBook \<times> ObjectPool) option" where
  "add_order b oid sd p q ts pool =
     do { found \<leftarrow> OrderMap_find (orders b) oid;
          if found \<noteq> Null then Some (Null, b, pool)
          else
            let (a, pool1) = acquire pool;
                pool2 = pool1\<lparr>store := (store pool1)
                          (a := \<lparr>order_id = oid, price = p, quantity = q, original_qty = q,
                                 order_locate = stock_locate b, side = sd, timestamp = ts\<rparr>)\<rparr>
            in do { om \<leftarrow> OrderMap_put (orders b) oid (Addr a);
                    let b1 = b\<lparr>orders := om\<rparr>;
                        b2 = (if is_buy sd
                              then update_best_bid
                                     (b1\<lparr>bids := side_add True p a (store pool2) (bids b1)\<rparr>)
                              else update_best_ask
                                     (b1\<lparr>asks := side_add False p a (store pool2) (asks b1)\<rparr>))
                    in Some (Addr a, b2\<lparr>order_count := order_count b2 + 1\<rparr>, pool2) } }"

definition execute_order ::
  "OrderBook \<Rightarrow> OrderId \<Rightarrow> Quantity \<Rightarrow> ObjectPool \<Rightarrow> (Quantity \<times> OrderBook \<times> ObjectPool) option" where
  "execute_order b oid qty pool =
     do { found \<leftarrow> OrderMap_find (orders b) oid;
          case found of
            Null \<Rightarrow> Some (0, b, pool)
          | Addr a \<Rightarrow>
              let exec_qty = min qty (quantity (store pool a));
                  sd = side (store pool a);
                  p = price (store pool a)
              in do { (b1, st1) \<leftarrow>
                        (if is_buy sd
                         then do { (xs, st) \<leftarrow> side_reduce True p a exec_qty (store pool) (bids b);
                                   Some (update_best_bid (b\<lparr>bids := xs\<rparr>), st) }
                         else do { (xs, st) \<leftarrow> side_reduce False p a exec_qty (store pool) (asks b);
                                   Some (update_best_ask (b\<lparr>asks := xs\<rparr>), st) });
                      if quantity (st1 a) = 0
                      then do { om \<leftarrow> OrderMap_remove (orders b1) oid;
                                Some (exec_qty,
                                      b1\<lparr>orders := om, order_count := dec_size_t (order_count b1)\<rparr>,
                                      release (pool\<lparr>store := st1\<rparr>) a) }
                      else Some (exec_qty, b1, pool\<lparr>store := st1\<rparr>) } }"

definition cancel_order ::
  "OrderBook \<Rightarrow> OrderId \<Rightarrow> Quantity \<Rightarrow> ObjectPool \<Rightarrow> (Quantity \<times> OrderBook \<times> ObjectPool) option" where
  "cancel_order b oid qty pool = execute_order b oid qty pool"

definition delete_order ::
  "OrderBook \<Rightarrow> OrderId \<Rightarrow> ObjectPool \<Rightarrow> (bool \<times> OrderBook \<times> ObjectPool) option" where
  "delete_order b oid pool =
     do { found \<leftarrow> OrderMap_find (orders b) oid;
          case found of
            Null \<Rightarrow> Some (False, b, pool)
          | Addr a \<Rightarrow>
              let sd = side (store pool a);
                  p = price (store pool a);
                  b1 = (if is_buy sd
                        then update_best_bid (b\<lparr>bids := side_remove True p a (store pool) (bids b)\<rparr>)
                        else update_best_ask (b\<lparr>asks := side_remove False p a (store pool) (asks b)\<rparr>))
              in do { om \<leftarrow> OrderMap_remove (orders b1) oid;
                      Some (True,
                            b1\<lparr>orders := om, order_count := dec_size_t (order_count b1)\<rparr>,
                            release pool a) } }"

definition replace_order ::
  "OrderBook \<Rightarrow> OrderId \<Rightarrow> OrderId \<Rightarrow> Quantity \<Rightarrow> Price \<Rightarrow> Timestamp \<Rightarrow> ObjectPool
     \<Rightarrow> (ptr \<times> OrderBook \<times> ObjectPool) option" where
  "replace_order b old_order_id new_order_id new_quantity new_price ts pool =
     do { old_order \<leftarrow> OrderMap_find (orders b) old_order_id;
          case old_order of
            Null \<Rightarrow> Some (Null, b, pool)
          | Addr a \<Rightarrow>
              let sd = side (store pool a)
              in do { (_, b1, pool1) \<leftarrow> delete_order b old_order_id pool;
                      add_order b1 new_order_id sd new_price new_quantity ts pool1 } }"

section \<open>Invariants of a book and its pool\<close>

text \<open>
  A level stored under key \<open>k\<close> on the side \<open>buy\<close> is well formed when it carries the price
  \<open>k\<close>, its list is not empty and has no address twice, its cached count and total are
  those of the list (the total in the 32-bit arithmetic of \<^verbatim>\<open>Quantity\<close>), and every order of
  the list has the price \<open>k\<close> and the side of the map.
\<close>

definition level_ok :: "(nat \<Rightarrow> Order) \<Rightarrow> bool \<Rightarrow> Price \<times> PriceLevel \<Rightarrow> bool" where
  "level_ok st buy x \<longleftrightarrow>
     pl_price (snd x) = fst x \<and> pl_orders (snd x) \<noteq> [] \<and> distinct (pl_orders (snd x)) \<and>
     pl_order_count (snd x) = length (pl_orders (snd x)) \<and>
     pl_total_quantity (snd x) = sum_list (map (\<lambda>a. quantity (st a)) (pl_orders (snd x))) \<and>
     (\<forall>a\<in>set (pl_orders (snd x)). price (st a) = fst x \<and> is_buy (side (st a)) = buy)"

definition side_ok :: "(nat \<Rightarrow> Order) \<Rightarrow> bool \<Rightarrow> levels \<Rightarrow> bool" where
  "side_ok st buy xs \<longleftrightarrow>
     sorted_wrt (before buy) (map fst xs) \<and> (\<forall>x\<in>set xs. level_ok st buy x)"

definition side_addrs :: "levels \<Rightarrow> nat set" where
  "side_addrs xs = (\<Union>x\<in>set xs. set (pl_orders (snd x)))"

definition book_addrs :: "OrderBook \<Rightarrow> nat set" where
  "book_addrs b = side_addrs (bids b) \<union> side_addrs (asks b)"

text \<open>
  Every id of the index refers to an order record that carries this id and is listed in a
  level of the book.
\<close>

definition index_ok :: "OrderBook \<Rightarrow> (nat \<Rightarrow> Order) \<Rightarrow> bool" where
  "index_ok b st \<longleftrightarrow>
     (\<forall>k r. OrderMap_abs (orders b) k = Some r \<longrightarrow>
        (\<exists>a. r = Addr a \<and> order_id (st a) = k \<and> a \<in> book_addrs b))"

text \<open>The BBO that \<^verbatim>\<open>update_best_bid\<close> and \<^verbatim>\<open>update_best_ask\<close> compute from the two maps.\<close>

definition bbo_of :: "levels \<Rightarrow> levels \<Rightarrow> BBO" where
  "bbo_of bs as =
     \<lparr>bid_price = (case bs of [] \<Rightarrow> 0 | x # _ \<Rightarrow> pl_price (snd x)),
      ask_price = (case as of [] \<Rightarrow> Price_max | x # _ \<Rightarrow> pl_price (snd x)),
      bid_quantity = (case bs of [] \<Rightarrow> 0 | x # _ \<Rightarrow> pl_total_quantity (snd x)),
      ask_quantity = (case as of [] \<Rightarrow> 0 | x # _ \<Rightarrow> pl_total_quantity (snd x))\<rparr>"

definition pool_ok :: "ObjectPool \<Rightarrow> bool" where
  "pool_ok p \<longleftrightarrow>
     0 < block_size p \<and> distinct (free_list p) \<and>
     (\<forall>a\<in>set (free_list p). a < blocks p * block_size p)"

text \<open>The addresses that the pool has allocated and that are not in its free list.\<close>

definition used :: "ObjectPool \<Rightarrow> nat set" where
  "used p = {a. a < blocks p * block_size p \<and> a \<notin> set (free_list p)}"

definition OrderBook_inv :: "OrderBook \<Rightarrow> ObjectPool \<Rightarrow> bool" where
  "OrderBook_inv b p \<longleftrightarrow>
     OrderMap_inv (orders b) \<and> side_ok (store p) True (bids b) \<and>
     side_ok (store p) False (asks b) \<and> index_ok b (store p) \<and>
     bbo b = bbo_of (bids b) (asks b) \<and> pool_ok p \<and> book_addrs b \<subseteq> used p"

section \<open>Reachable states of a book\<close>

text \<open>
  The states of a book and of the pool it is given, from the constructors on.  The table of
  a new book is \<^verbatim>\<open>OrderMap(100000)\<close> in the source; the rule admits every initial capacity
  from 2 on and every block size of the pool.  The pool belongs to the manager and is
  shared by all its books: \<open>reach_shared\<close> is a step of another book, which changes the pool
  but neither a record that is linked in this book nor the fact that it is allocated.
\<close>

inductive OrderBook_reach :: "OrderBook \<Rightarrow> ObjectPool \<Rightarrow> bool" where
  reach_book: "2 \<le> c \<Longrightarrow> OrderMap_new c = Some om \<Longrightarrow> 0 < bs \<Longrightarrow>
     OrderBook_reach
       \<lparr>stock_locate = l, bids = [], asks = [], orders = om, bbo = BBO_new, order_count = 0\<rparr>
       (ObjectPool_new bs mem)"
| reach_add: "OrderBook_reach b p \<Longrightarrow> add_order b oid sd pr q ts p = Some (r, b', p') \<Longrightarrow>
     OrderBook_reach b' p'"
| reach_execute: "OrderBook_reach b p \<Longrightarrow> execute_order b oid q p = Some (n, b', p') \<Longrightarrow>
     OrderBook_reach b' p'"
| reach_cancel: "OrderBook_reach b p \<Longrightarrow> cancel_order b oid q p = Some (n, b', p') \<Longrightarrow>
     OrderBook_reach b' p'"
| reach_delete: "OrderBook_reach b p \<Longrightarrow> delete_order b oid p = Some (ok, b', p') \<Longrightarrow>
     OrderBook_reach b' p'"
| reach_replace: "OrderBook_reach b p \<Longrightarrow>
     replace_order b old_id new_id q pr ts p = Some (r, b', p') \<Longrightarrow>
     OrderBook_reach b' p'"
| reach_shared: "OrderBook_reach b p \<Longrightarrow> pool_ok p' \<Longrightarrow> book_addrs b \<subseteq> used p' \<Longrightarrow>
     \<forall>a\<in>book_addrs b. store p' a = store p a \<Longrightarrow>
     OrderBook_reach b p'"

section \<open>The decoder contract\<close>

lemma get_message_size_known:
  "t \<in> set known_tags \<longleftrightarrow> get_message_size t \<noteq> 0"
  by (simp add: known_tags_def get_message_size_def)

lemma typed_callback_known:
  "t \<in> set known_tags \<Longrightarrow> \<exists>c. typed_callback t ts = Some c"
  by (auto simp: known_tags_def typed_callback_def)


lemma parse_message_known:
  assumes "data 0 \<in> set known_tags" and "get_message_size (data 0) \<le> max_len"
  shows "\<exists>p' c. parse_message p data max_len = (p', get_message_size (data 0)) \<and>
           typed_callback (data 0) (extract_timestamp data) = Some c \<and>
           handler p' = handler p \<and>
           calls p' = (if handler p then calls p @ [c] else calls p) \<and>
           messages_parsed (stats p') = messages_parsed (stats p) + 1 \<and>
           bytes_processed (stats p') =
             bytes_processed (stats p) + of_nat (get_message_size (data 0)) \<and>
           message_type_counts (stats p') =
             (message_type_counts (stats p))
               (of_char (data 0) := message_type_counts (stats p) (of_char (data 0)) + 1) \<and>
           parse_errors (stats p') = parse_errors (stats p)"
proof -
  from assms(1) have nz: "get_message_size (data 0) \<noteq> 0"
    by (simp add: get_message_size_known)
  with assms(2) have len: "max_len \<noteq> 0" by simp
  from typed_callback_known [OF assms(1)] obtain c
    where c: "typed_callback (data 0) (extract_timestamp data) = Some c" by blast
  show ?thesis
    using nz len assms(2) c
    by (simp add: parse_message_def Let_def dispatch_message_def count_message_def)
qed

lemma template_parse_message_known:
  assumes "data 0 \<in> set known_tags" and "get_message_size (data 0) \<le> max_len"
  shows "\<exists>c. typed_callback (data 0) (be48_to_host data 5) = Some c \<and>
           template_parse_message q data max_len =
             (q\<lparr>t_calls := t_calls q @ [c]\<rparr>, get_message_size (data 0))"
proof -
  from assms(1) have nz: "get_message_size (data 0) \<noteq> 0"
    by (simp add: get_message_size_known)
  with assms(2) have len: "max_len \<noteq> 0" by simp
  from typed_callback_known [OF assms(1)] obtain c
    where c: "typed_callback (data 0) (be48_to_host data 5) = Some c" by blast
  show ?thesis
    using nz len assms(2) c
    by (simp add: template_parse_message_def Let_def dispatch_def)
qed

text \<open>
  The contract of \<^verbatim>\<open>ITCHParser::parse_message\<close>, for every parser state, buffer and
  \<open>max_len\<close>: it returns 0 and changes nothing when \<open>max_len = 0\<close>; on a first byte that is
  not one of the 22 tags it adds one to \<open>parse_errors\<close>, calls \<open>on_parse_error\<close> when a
  handler is attached and returns 1; on a known tag with \<open>max_len\<close> below the fixed size it
  returns 0 and changes nothing; otherwise it calls the typed callback of the tag (when a
  handler is attached), adds one to \<open>messages_parsed\<close>, the size to \<open>bytes_processed\<close> and
  one to the per-type count, and returns the size.
\<close>

lemma ITCHParser_parse_message_contract:
  "(max_len = 0 \<longrightarrow> parse_message p data max_len = (p, 0)) \<and>
   (max_len \<noteq> 0 \<and> data 0 \<notin> set known_tags \<longrightarrow>
      parse_message p data max_len =
        (p\<lparr>stats := (stats p)\<lparr>parse_errors := parse_errors (stats p) + 1\<rparr>,
           calls := (if handler p
                     then calls p @ [On_parse_error max_len ''Unknown message type'']
                     else calls p)\<rparr>, 1)) \<and>
   (data 0 \<in> set known_tags \<and> max_len < get_message_size (data 0) \<longrightarrow>
      parse_message p data max_len = (p, 0)) \<and>
   (data 0 \<in> set known_tags \<and> get_message_size (data 0) \<le> max_len \<longrightarrow>
      (\<exists>p' c. parse_message p data max_len = (p', get_message_size (data 0)) \<and>
         typed_callback (data 0) (extract_timestamp data) = Some c \<and>
         handler p' = handler p \<and>
         calls p' = (if handler p then calls p @ [c] else calls p) \<and>
         messages_parsed (stats p') = messages_parsed (stats p) + 1 \<and>
         bytes_processed (stats p') =
           bytes_processed (stats p) + of_nat (get_message_size (data 0)) \<and>
         message_type_counts (stats p') =
           (message_type_counts (stats p))
             (of_char (data 0) := message_type_counts (stats p) (of_char (data 0)) + 1) \<and>
         parse_errors (stats p') = parse_errors (stats p)))"
proof (intro conjI impI)
  assume "max_len = 0"
  then show "parse_message p data max_len = (p, 0)"
    by (simp add: parse_message_def)
next
  assume "max_len \<noteq> 0 \<and> data 0 \<notin> set known_tags"
  then show "parse_message p data max_len =
        (p\<lparr>stats := (stats p)\<lparr>parse_errors := parse_errors (stats p) + 1\<rparr>,
           calls := (if handler p
                     then calls p @ [On_parse_error max_len ''Unknown message type'']
                     else calls p)\<rparr>, 1)"
    by (simp add: parse_message_def Let_def get_message_size_known)
next
  assume "data 0 \<in> set known_tags \<and> max_len < get_message_size (data 0)"
  then show "parse_message p data max_len = (p, 0)"
    by (simp add: parse_message_def Let_def get_message_size_known)
next
  assume "data 0 \<in> set known_tags \<and> get_message_size (data 0) \<le> max_len"
  then show "\<exists>p' c. parse_message p data max_len = (p', get_message_size (data 0)) \<and>
         typed_callback (data 0) (extract_timestamp data) = Some c \<and>
         handler p' = handler p \<and>
         calls p' = (if handler p then calls p @ [c] else calls p) \<and>
         messages_parsed (stats p') = messages_parsed (stats p) + 1 \<and>
         bytes_processed (stats p') =
           bytes_processed (stats p) + of_nat (get_message_size (data 0)) \<and>
         message_type_counts (stats p') =
           (message_type_counts (stats p))
             (of_char (data 0) := message_type_counts (stats p) (of_char (data 0)) + 1) \<and>
         parse_errors (stats p') = parse_errors (stats p)"
    using parse_message_known by blast
qed

text \<open>
  \<^verbatim>\<open>TemplateParser::parse_message\<close> tests \<^verbatim>\<open>msg_size == 0 || max_len < msg_size\<close> in one
  guard and never writes \<^verbatim>\<open>stats_\<close>: for every state, an unknown tag is answered like a
  short read, and a full message is dispatched without any counter update.
\<close>

lemma TemplateParser_parse_message_cases:
  "(max_len = 0 \<or> data 0 \<notin> set known_tags \<or> max_len < get_message_size (data 0) \<longrightarrow>
      template_parse_message q data max_len = (q, 0)) \<and>
   (data 0 \<in> set known_tags \<and> get_message_size (data 0) \<le> max_len \<longrightarrow>
      (\<exists>c. typed_callback (data 0) (be48_to_host data 5) = Some c \<and>
         template_parse_message q data max_len =
           (q\<lparr>t_calls := t_calls q @ [c]\<rparr>, get_message_size (data 0))))"
proof (intro conjI impI)
  assume "max_len = 0 \<or> data 0 \<notin> set known_tags \<or> max_len < get_message_size (data 0)"
  then show "template_parse_message q data max_len = (q, 0)"
    by (auto simp: template_parse_message_def Let_def get_message_size_known)
next
  assume "data 0 \<in> set known_tags \<and> get_message_size (data 0) \<le> max_len"
  then show "\<exists>c. typed_callback (data 0) (be48_to_host data 5) = Some c \<and>
         template_parse_message q data max_len =
           (q\<lparr>t_calls := t_calls q @ [c]\<rparr>, get_message_size (data 0))"
    using template_parse_message_known by blast
qed

text \<open>
  C1.  The two decoders on the same two inputs, from fresh state.  On the single unknown
  byte \<open>Z\<close> with \<open>max_len = 1\<close>, \<^verbatim>\<open>ITCHParser::parse_message\<close> returns 1, counts one parse
  error and calls \<open>on_parse_error\<close>, as the contract says; \<^verbatim>\<open>TemplateParser::parse_message\<close>
  returns 0, counts nothing and calls nothing.  On a full 36-byte \<open>A\<close> message (all bytes
  \<open>A\<close>) both call \<open>on_add_order\<close> and return 36; the first sets \<open>messages_parsed\<close> to 1,
  \<open>bytes_processed\<close> to 36 and the count of type \<open>A\<close> (65) to 1, the second leaves its
  statistics as they were.
\<close>

theorem template_parse_message_diverges:
  "parse_message \<lparr>handler = True, stats = empty_stats, calls = []\<rparr> (\<lambda>_. CHR ''Z'') 1 =
     (\<lparr>handler = True, stats = empty_stats\<lparr>parse_errors := 1\<rparr>,
       calls = [On_parse_error 1 ''Unknown message type'']\<rparr>, 1) \<and>
   template_parse_message \<lparr>t_stats = empty_stats, t_calls = []\<rparr> (\<lambda>_. CHR ''Z'') 1 =
     (\<lparr>t_stats = empty_stats, t_calls = []\<rparr>, 0) \<and>
   parse_message \<lparr>handler = True, stats = empty_stats, calls = []\<rparr> (\<lambda>_. CHR ''A'') 36 =
     (\<lparr>handler = True,
        stats = empty_stats\<lparr>messages_parsed := 1, bytes_processed := 36,
                  message_type_counts := (message_type_counts empty_stats)(65 := 1)\<rparr>,
        calls = [On_add_order (extract_timestamp (\<lambda>_. CHR ''A''))]\<rparr>, 36) \<and>
   template_parse_message \<lparr>t_stats = empty_stats, t_calls = []\<rparr> (\<lambda>_. CHR ''A'') 36 =
     (\<lparr>t_stats = empty_stats, t_calls = [On_add_order (be48_to_host (\<lambda>_. CHR ''A'') 5)]\<rparr>, 36)"
  by (simp add: parse_message_def template_parse_message_def get_message_size_def Let_def
        dispatch_def dispatch_message_def count_message_def typed_callback_def empty_stats_def)

section \<open>Masking is reduction modulo the capacity\<close>

lemma and_pow2_minus_1: "(x::nat) AND (2 ^ k - 1) = x mod 2 ^ k"
proof -
  have "x AND (2 ^ k - 1) = x AND mask k"
    by (simp add: mask_eq_exp_minus_1)
  also have "\<dots> = take_bit k x"
    by (simp add: take_bit_eq_mask)
  also have "\<dots> = x mod 2 ^ k"
    by (simp add: take_bit_eq_mod)
  finally show ?thesis .
qed

lemma geom_and: "table_geom n msk \<Longrightarrow> x AND msk = x mod n"
proof -
  assume "table_geom n msk"
  then obtain k where "n = 2 ^ Suc k" and "msk = n - 1"
    unfolding table_geom_def by blast
  then show ?thesis
    using and_pow2_minus_1 [of x "Suc k"] by (simp del: power_Suc)
qed

lemma geom_ge2: "table_geom n msk \<Longrightarrow> 2 \<le> n"
  unfolding table_geom_def by auto

lemma geom_home: "table_geom n msk \<Longrightarrow> x AND msk < n"
  using geom_and [of n msk x] geom_ge2 [of n msk] by simp

lemma geom_succ: "table_geom n msk \<Longrightarrow> a < n \<Longrightarrow> Suc a AND msk = csucc n a"
  using geom_and [of n msk "Suc a"] by (cases "Suc a = n") (auto simp: csucc_def)

lemma csucc_less: "2 \<le> n \<Longrightarrow> csucc n a < n"
  by (simp add: csucc_def)

lemma cdist_self: "cdist n a a = 0"
  by (simp add: cdist_def)

lemma cdist_less: "a < n \<Longrightarrow> b < n \<Longrightarrow> cdist n a b < n"
  by (auto simp: cdist_def)

lemma cdist_eq_0: "a < n \<Longrightarrow> b < n \<Longrightarrow> cdist n a b = 0 \<longleftrightarrow> a = b"
  by (auto simp: cdist_def)

lemma cdist_csucc:
  "a < n \<Longrightarrow> b < n \<Longrightarrow> a \<noteq> b \<Longrightarrow> cdist n (csucc n a) b = cdist n a b - 1"
  by (auto simp: cdist_def csucc_def)

lemma cdist_csucc_right:
  "a < n \<Longrightarrow> b < n \<Longrightarrow> csucc n b \<noteq> a \<Longrightarrow> cdist n a (csucc n b) = cdist n a b + 1"
  by (auto simp: cdist_def csucc_def)

section \<open>The probe loops return\<close>

lemma probe_empty_stops:
  assumes g: "table_geom n msk" and e: "e < n" "fst (es ! e) = 0"
  shows "idx < n \<Longrightarrow>
    \<exists>s<n. probe_empty es msk idx = Some s \<and> fst (es ! s) = 0 \<and>
      (\<forall>t<n. cdist n idx t < cdist n idx s \<longrightarrow> fst (es ! t) \<noteq> 0)"
proof (induction "cdist n idx e" arbitrary: idx rule: less_induct)
  case less
  show ?case
  proof (cases "fst (es ! idx) = 0")
    case True
    have "probe_empty es msk idx = Some idx"
      by (subst probe_empty.simps) (simp add: True)
    with True less.prems show ?thesis
      by (intro exI [of _ idx]) (simp add: cdist_self)
  next
    case False
    with e have ne: "idx \<noteq> e" by auto
    have n2: "2 \<le> n" using g by (rule geom_ge2)
    let ?i = "csucc n idx"
    have i: "?i < n" using n2 by (rule csucc_less)
    have d: "cdist n ?i e = cdist n idx e - 1"
      using less.prems e(1) ne by (rule cdist_csucc)
    have pos: "0 < cdist n idx e"
      using cdist_eq_0 [of idx n e] less.prems e(1) ne by simp
    from less.hyps [of ?i] d pos i obtain s where s: "s < n"
      "probe_empty es msk ?i = Some s" "fst (es ! s) = 0"
      "\<forall>t<n. cdist n ?i t < cdist n ?i s \<longrightarrow> fst (es ! t) \<noteq> 0"
      by auto
    have step: "probe_empty es msk idx = probe_empty es msk ?i"
      by (subst probe_empty.simps) (simp add: False geom_succ [OF g less.prems])
    have sne: "s \<noteq> idx" using s(3) False by auto
    have "\<forall>t<n. cdist n idx t < cdist n idx s \<longrightarrow> fst (es ! t) \<noteq> 0"
    proof (intro allI impI)
      fix t assume t: "t < n" "cdist n idx t < cdist n idx s"
      show "fst (es ! t) \<noteq> 0"
      proof (cases "t = idx")
        case True
        then show ?thesis using False by simp
      next
        case ne': False
        have "cdist n ?i t = cdist n idx t - 1"
          using less.prems t(1) ne' by (intro cdist_csucc) auto
        moreover have "cdist n ?i s = cdist n idx s - 1"
          using less.prems s(1) sne by (intro cdist_csucc) auto
        moreover have "0 < cdist n idx t"
          using cdist_eq_0 [of idx n t] less.prems t(1) ne' by auto
        ultimately have "cdist n ?i t < cdist n ?i s" using t(2) by linarith
        with s(4) t(1) show ?thesis by blast
      qed
    qed
    with s step show ?thesis
      by (intro exI [of _ s]) simp
  qed
qed

lemma find_loop_stops:
  assumes g: "table_geom n msk" and e: "e < n" "fst (es ! e) = 0 \<or> fst (es ! e) = k"
  shows "idx < n \<Longrightarrow>
    \<exists>s<n. find_loop es msk k idx = Some (if fst (es ! s) \<noteq> 0 then snd (es ! s) else Null) \<and>
      (fst (es ! s) = 0 \<or> fst (es ! s) = k) \<and>
      cdist n idx s \<le> cdist n idx e \<and>
      (\<forall>t<n. cdist n idx t < cdist n idx s \<longrightarrow> fst (es ! t) \<noteq> 0 \<and> fst (es ! t) \<noteq> k)"
proof (induction "cdist n idx e" arbitrary: idx rule: less_induct)
  case less
  show ?case
  proof (cases "fst (es ! idx) = 0 \<or> fst (es ! idx) = k")
    case True
    have "find_loop es msk k idx = Some (if fst (es ! idx) \<noteq> 0 then snd (es ! idx) else Null)"
    proof (cases "fst (es ! idx) = 0")
      case z: True
      then show ?thesis by (subst find_loop.simps) simp
    next
      case nz: False
      with True have "fst (es ! idx) = k" by simp
      with nz show ?thesis by (subst find_loop.simps) simp
    qed
    with True less.prems show ?thesis
      by (intro exI [of _ idx]) (simp add: cdist_self)
  next
    case False
    with e have ne: "idx \<noteq> e" by auto
    have n2: "2 \<le> n" using g by (rule geom_ge2)
    let ?i = "csucc n idx"
    have i: "?i < n" using n2 by (rule csucc_less)
    have d: "cdist n ?i e = cdist n idx e - 1"
      using less.prems e(1) ne by (rule cdist_csucc)
    have pos: "0 < cdist n idx e"
      using cdist_eq_0 [of idx n e] less.prems e(1) ne by simp
    from less.hyps [of ?i] d pos i obtain s where s: "s < n"
      "find_loop es msk k ?i = Some (if fst (es ! s) \<noteq> 0 then snd (es ! s) else Null)"
      "fst (es ! s) = 0 \<or> fst (es ! s) = k"
      "cdist n ?i s \<le> cdist n ?i e"
      "\<forall>t<n. cdist n ?i t < cdist n ?i s \<longrightarrow> fst (es ! t) \<noteq> 0 \<and> fst (es ! t) \<noteq> k"
      by auto
    have step: "find_loop es msk k idx = find_loop es msk k ?i"
      using False by (subst find_loop.simps) (simp add: geom_succ [OF g less.prems])
    have sne: "s \<noteq> idx" using s(3) False by auto
    have ds: "cdist n ?i s = cdist n idx s - 1"
      using less.prems s(1) sne by (intro cdist_csucc) auto
    have spos: "0 < cdist n idx s"
      using cdist_eq_0 [of idx n s] less.prems s(1) sne by auto
    have le: "cdist n idx s \<le> cdist n idx e"
      using s(4) d ds pos spos by linarith
    have "\<forall>t<n. cdist n idx t < cdist n idx s \<longrightarrow> fst (es ! t) \<noteq> 0 \<and> fst (es ! t) \<noteq> k"
    proof (intro allI impI)
      fix t assume t: "t < n" "cdist n idx t < cdist n idx s"
      show "fst (es ! t) \<noteq> 0 \<and> fst (es ! t) \<noteq> k"
      proof (cases "t = idx")
        case True
        then show ?thesis using False by simp
      next
        case ne': False
        have "cdist n ?i t = cdist n idx t - 1"
          using less.prems t(1) ne' by (intro cdist_csucc) auto
        moreover have "0 < cdist n idx t"
          using cdist_eq_0 [of idx n t] less.prems t(1) ne' by auto
        ultimately have "cdist n ?i t < cdist n ?i s" using t(2) ds by linarith
        with s(5) t(1) show ?thesis by blast
      qed
    qed
    with s step le show ?thesis
      by (intro exI [of _ s]) simp
  qed
qed

section \<open>Occupied slots, distinct ids and the content of a table\<close>

lemma distinct_filter_nth:
  "distinct (filter P ks) \<longleftrightarrow>
     (\<forall>i<length ks. \<forall>j<length ks. P (ks ! i) \<and> ks ! i = ks ! j \<longrightarrow> i = j)"
proof (induction ks)
  case Nil
  then show ?case by simp
next
  case (Cons k ks)
  show ?case
  proof
    assume d: "distinct (filter P (k # ks))"
    then have d': "distinct (filter P ks)" by (simp split: if_splits)
    show "\<forall>i<length (k # ks). \<forall>j<length (k # ks).
            P ((k # ks) ! i) \<and> (k # ks) ! i = (k # ks) ! j \<longrightarrow> i = j"
    proof (intro allI impI)
      fix i j
      assume i: "i < length (k # ks)" and j: "j < length (k # ks)"
        and eq: "P ((k # ks) ! i) \<and> (k # ks) ! i = (k # ks) ! j"
      show "i = j"
      proof (cases i)
        case i0: 0
        show ?thesis
        proof (cases j)
          case 0
          with i0 show ?thesis by simp
        next
          case (Suc j')
          with i0 eq j d have False by (auto simp: in_set_conv_nth)
          then show ?thesis ..
        qed
      next
        case iS: (Suc i')
        show ?thesis
        proof (cases j)
          case 0
          with iS eq i d have False by (auto simp: in_set_conv_nth)
          then show ?thesis ..
        next
          case (Suc j')
          with iS eq i j Cons.IH d' show ?thesis by auto
        qed
      qed
    qed
  next
    assume r: "\<forall>i<length (k # ks). \<forall>j<length (k # ks).
            P ((k # ks) ! i) \<and> (k # ks) ! i = (k # ks) ! j \<longrightarrow> i = j"
    have "\<forall>i<length ks. \<forall>j<length ks. P (ks ! i) \<and> ks ! i = ks ! j \<longrightarrow> i = j"
    proof (intro allI impI)
      fix i j assume "i < length ks" "j < length ks" "P (ks ! i) \<and> ks ! i = ks ! j"
      with r [rule_format, of "Suc i" "Suc j"] show "i = j" by auto
    qed
    with Cons.IH have d': "distinct (filter P ks)" by simp
    have "P k \<Longrightarrow> k \<notin> set ks"
    proof
      assume "P k" "k \<in> set ks"
      then obtain j where "j < length ks" "ks ! j = k" by (auto simp: in_set_conv_nth)
      with r [rule_format, of 0 "Suc j"] \<open>P k\<close> show False by simp
    qed
    with d' show "distinct (filter P (k # ks))" by auto
  qed
qed

lemma keys_inj_nth:
  "keys_inj es \<longleftrightarrow>
     (\<forall>i<length es. \<forall>j<length es. fst (es ! i) \<noteq> 0 \<and> fst (es ! i) = fst (es ! j) \<longrightarrow> i = j)"
  unfolding keys_inj_def distinct_filter_nth by simp

lemma keys_injD:
  "keys_inj es \<Longrightarrow> i < length es \<Longrightarrow> j < length es \<Longrightarrow> fst (es ! i) \<noteq> 0 \<Longrightarrow>
     fst (es ! i) = fst (es ! j) \<Longrightarrow> i = j"
  unfolding keys_inj_nth by blast

lemma occupied_update:
  "i < length es \<Longrightarrow>
     occupied (es[i := v]) + (if fst (es ! i) \<noteq> 0 then 1 else 0) =
     occupied es + (if fst v \<noteq> 0 then 1 else 0)"
  unfolding occupied_def
proof (induction es arbitrary: i)
  case Nil
  then show ?case by simp
next
  case (Cons e es)
  then show ?case by (cases i) auto
qed

lemma occupied_le_length: "occupied es \<le> length es"
  by (simp add: occupied_def)

lemma occupied_empty_slot:
  assumes "occupied es < length es"
  shows "\<exists>e<length es. fst (es ! e) = 0"
proof (rule ccontr)
  assume "\<not> (\<exists>e<length es. fst (es ! e) = 0)"
  then have "\<forall>x\<in>set es. fst x \<noteq> 0" by (metis in_set_conv_nth)
  then have "filter (\<lambda>e. fst e \<noteq> 0) es = es" by simp
  with assms show False by (simp add: occupied_def)
qed

lemma live_nth: "(k, p) \<in> live es \<longleftrightarrow> k \<noteq> 0 \<and> (\<exists>i<length es. es ! i = (k, p))"
  by (auto simp: live_def in_set_conv_nth)

lemma live_fill:
  assumes "s < length es" "fst (es ! s) = 0"
  shows "live (es[s := v]) = (if fst v \<noteq> 0 then insert v (live es) else live es)"
proof -
  have "set (es[s := v]) \<subseteq> insert v (set es)" by (rule set_update_subset_insert)
  moreover have "v \<in> set (es[s := v])" using assms(1) by (simp add: set_update_memI)
  moreover have "x \<in> set (es[s := v])" if "x \<in> set es" "fst x \<noteq> 0" for x
  proof -
    from that obtain i where i: "i < length es" "es ! i = x" by (auto simp: in_set_conv_nth)
    with that assms have "i \<noteq> s" by auto
    with i have "es[s := v] ! i = x" by simp
    with i(1) show ?thesis by (metis length_list_update nth_mem)
  qed
  ultimately show ?thesis unfolding live_def by auto
qed

lemma live_clear:
  assumes "keys_inj es" "s < length es" "fst v = 0"
  shows "live (es[s := v]) = live es - {es ! s}"
proof (cases "fst (es ! s) = 0")
  case True
  have "live (es[s := v]) = live es" using live_fill [OF assms(2) True, of v] assms(3) by simp
  moreover have "es ! s \<notin> live es" using True by (simp add: live_def)
  ultimately show ?thesis by simp
next
  case False
  have a: "x \<in> set (es[s := v])" if "x \<in> set es" "x \<noteq> es ! s" for x
  proof -
    from that obtain i where i: "i < length es" "es ! i = x" by (auto simp: in_set_conv_nth)
    with that have "i \<noteq> s" by auto
    with i have "es[s := v] ! i = x" by simp
    with i(1) show ?thesis by (metis length_list_update nth_mem)
  qed
  have b: "x \<noteq> es ! s" if "x \<in> set (es[s := v])" "fst x \<noteq> 0" for x
  proof
    assume eq: "x = es ! s"
    from that obtain i where i: "i < length es" "es[s := v] ! i = x"
      by (auto simp: in_set_conv_nth)
    with that assms(3) have "i \<noteq> s" using assms(2) by auto
    with i have "es ! i = x" by simp
    with eq False assms(1,2) i(1) have "s = i" by (intro keys_injD [of es s i]) auto
    with \<open>i \<noteq> s\<close> show False by simp
  qed
  have c: "x \<in> set es" if "x \<in> set (es[s := v])" "fst x \<noteq> 0" for x
    using that assms(3) set_update_subset_insert [of es s v] by auto
  show ?thesis unfolding live_def using a b c by auto
qed

lemma abs_live:
  assumes "keys_inj (entries m)"
  shows "OrderMap_abs m k = Some p \<longleftrightarrow> (k, p) \<in> live (entries m)"
proof
  assume "OrderMap_abs m k = Some p"
  then have "(k, p) \<in> set (filter (\<lambda>e. fst e \<noteq> 0) (entries m))"
    unfolding OrderMap_abs_def by (rule map_of_SomeD)
  then show "(k, p) \<in> live (entries m)" by (simp add: live_def)
next
  assume l: "(k, p) \<in> live (entries m)"
  then have "(k, p) \<in> set (filter (\<lambda>e. fst e \<noteq> 0) (entries m))" by (simp add: live_def)
  then obtain x where x: "OrderMap_abs m k = Some x"
    unfolding OrderMap_abs_def using weak_map_of_SomeI by fastforce
  then have "(k, x) \<in> set (filter (\<lambda>e. fst e \<noteq> 0) (entries m))"
    unfolding OrderMap_abs_def by (rule map_of_SomeD)
  then have "(k, x) \<in> live (entries m)" by (simp add: live_def)
  with l obtain i j where i: "i < length (entries m)" "entries m ! i = (k, p)"
    and j: "j < length (entries m)" "entries m ! j = (k, x)" and k: "k \<noteq> 0"
    by (auto simp: live_nth)
  with assms have "i = j" by (intro keys_injD [of "entries m" i j]) auto
  with i j x show "OrderMap_abs m k = Some p" by simp
qed

lemma abs_eqI:
  assumes "keys_inj (entries m)" "keys_inj (entries m')"
    and "\<And>k p. (k, p) \<in> live (entries m') \<longleftrightarrow> f k = Some p"
  shows "OrderMap_abs m' = f"
proof
  fix k
  show "OrderMap_abs m' k = f k"
  proof (cases "f k")
    case None
    show ?thesis
    proof (cases "OrderMap_abs m' k")
      case None' : None
      with None show ?thesis by simp
    next
      case (Some p)
      with abs_live [OF assms(2)] assms(3) None show ?thesis by auto
    qed
  next
    case (Some p)
    with abs_live [OF assms(2)] assms(3) show ?thesis by auto
  qed
qed

lemma abs_None:
  assumes "keys_inj (entries m)"
  shows "OrderMap_abs m k = None \<longleftrightarrow> k = 0 \<or> (\<forall>i<length (entries m). fst (entries m ! i) \<noteq> k)"
proof -
  have "OrderMap_abs m k = None \<longleftrightarrow> (\<forall>p. (k, p) \<notin> live (entries m))"
    using abs_live [OF assms, of k] by (cases "OrderMap_abs m k") auto
  also have "\<dots> \<longleftrightarrow> k = 0 \<or> (\<forall>i<length (entries m). fst (entries m ! i) \<noteq> k)"
    unfolding live_nth by (metis fst_conv prod.collapse)
  finally show ?thesis .
qed

section \<open>find returns what the table holds\<close>

lemma cdist_inj: "h < n \<Longrightarrow> s < n \<Longrightarrow> i < n \<Longrightarrow> cdist n h s = cdist n h i \<Longrightarrow> s = i"
  by (auto simp: cdist_def split: if_splits)

lemma find_loop_present:
  assumes g: "table_geom n msk" and len: "length es = n" and inj: "keys_inj es"
    and ok: "probe_ok es n msk" and i: "i < n" "fst (es ! i) = k" "k \<noteq> 0"
  shows "find_loop es msk k (hash k AND msk) = Some (snd (es ! i))"
proof -
  let ?h = "hash k AND msk"
  have h: "?h < n" using g by (rule geom_home)
  from find_loop_stops [OF g i(1) _ h, of es k] i(2) obtain s where s: "s < n"
    "find_loop es msk k ?h = Some (if fst (es ! s) \<noteq> 0 then snd (es ! s) else Null)"
    "fst (es ! s) = 0 \<or> fst (es ! s) = k"
    "cdist n ?h s \<le> cdist n ?h i"
    by blast
  have "s = i"
  proof (rule ccontr)
    assume ne: "s \<noteq> i"
    with cdist_inj [OF h s(1) i(1)] s(4) have "cdist n ?h s < cdist n ?h i" by fastforce
    with ok i s(1) have "fst (es ! s) \<noteq> 0" unfolding probe_ok_def by blast
    with s(3) have "fst (es ! s) = k" by simp
    with inj len s(1) i have "s = i" by (intro keys_injD [of es s i]) auto
    with ne show False ..
  qed
  with s(2) i show ?thesis by simp
qed

lemma find_loop_absent:
  assumes g: "table_geom n msk" and len: "length es = n"
    and e: "e < n" "fst (es ! e) = 0"
    and k: "k = 0 \<or> (\<forall>i<n. fst (es ! i) \<noteq> k)"
  shows "find_loop es msk k (hash k AND msk) = Some Null"
proof -
  let ?h = "hash k AND msk"
  have h: "?h < n" using g by (rule geom_home)
  from find_loop_stops [OF g e(1) _ h, of es k] e(2) obtain s where s: "s < n"
    "find_loop es msk k ?h = Some (if fst (es ! s) \<noteq> 0 then snd (es ! s) else Null)"
    "fst (es ! s) = 0 \<or> fst (es ! s) = k"
    by blast
  from s(1,3) k have "fst (es ! s) = 0" by auto
  with s(2) show ?thesis by simp
qed

lemma inv_empty_slot:
  assumes "OrderMap_inv m"
  shows "\<exists>e<capacity m. fst (entries m ! e) = 0"
proof -
  from assms have len: "length (entries m) = capacity m"
    and g: "table_geom (capacity m) (mask_v m)"
    and l: "2 * load m \<le> capacity m" "occupied (entries m) \<le> load m"
    by (simp_all add: OrderMap_inv_def)
  from geom_ge2 [OF g] l have "occupied (entries m) < length (entries m)"
    using len by linarith
  from occupied_empty_slot [OF this] len show ?thesis by simp
qed

lemma OrderMap_find_abs:
  assumes inv: "OrderMap_inv m"
  shows "OrderMap_find m k = Some (case OrderMap_abs m k of None \<Rightarrow> Null | Some p \<Rightarrow> p)"
proof -
  from inv have len: "length (entries m) = capacity m"
    and g: "table_geom (capacity m) (mask_v m)"
    and inj: "keys_inj (entries m)"
    and ok: "probe_ok (entries m) (capacity m) (mask_v m)"
    by (simp_all add: OrderMap_inv_def)
  show ?thesis
  proof (cases "OrderMap_abs m k")
    case None
    from inv_empty_slot [OF inv] obtain e where e: "e < capacity m" "fst (entries m ! e) = 0"
      by blast
    from None abs_None [OF inj, of k] len
    have "k = 0 \<or> (\<forall>i<capacity m. fst (entries m ! i) \<noteq> k)" by simp
    from find_loop_absent [OF g len e this] None show ?thesis
      by (simp add: OrderMap_find_def)
  next
    case (Some p)
    with abs_live [OF inj, of k p] obtain i where i: "i < capacity m" "entries m ! i = (k, p)"
      and k: "k \<noteq> 0" using len by (auto simp: live_nth)
    from find_loop_present [OF g len inj ok i(1) _ k] i(2) Some show ?thesis
      by (simp add: OrderMap_find_def)
  qed
qed

section \<open>put\<close>

lemma probe_ok_fill:
  assumes len: "length es = n" and ok: "probe_ok es n msk"
    and s: "s < n" "fst (es ! s) = 0"
    and path: "\<forall>t<n. cdist n (hash k AND msk) t < cdist n (hash k AND msk) s \<longrightarrow> fst (es ! t) \<noteq> 0"
  shows "probe_ok (es[s := (k, p)]) n msk"
  unfolding probe_ok_def
proof (intro allI impI)
  fix i t
  assume i: "i < n" "fst (es[s := (k, p)] ! i) \<noteq> 0" and t: "t < n"
    and d: "cdist n (hash (fst (es[s := (k, p)] ! i)) AND msk) t
            < cdist n (hash (fst (es[s := (k, p)] ! i)) AND msk) i"
  have old: "fst (es ! t) \<noteq> 0 \<Longrightarrow> fst (es[s := (k, p)] ! t) \<noteq> 0"
    using s len by (cases "t = s") auto
  show "fst (es[s := (k, p)] ! t) \<noteq> 0"
  proof (cases "i = s")
    case True
    with d len s(1) have "cdist n (hash k AND msk) t < cdist n (hash k AND msk) s" by simp
    with path t have "fst (es ! t) \<noteq> 0" by blast
    then show ?thesis by (rule old)
  next
    case False
    with i d len have "fst (es ! i) \<noteq> 0"
      "cdist n (hash (fst (es ! i)) AND msk) t < cdist n (hash (fst (es ! i)) AND msk) i"
      by auto
    with ok i(1) t have "fst (es ! t) \<noteq> 0" unfolding probe_ok_def by blast
    then show ?thesis by (rule old)
  qed
qed

lemma keys_inj_fill:
  assumes inj: "keys_inj es" and s: "s < length es" "fst (es ! s) = 0"
    and k: "k = 0 \<or> (\<forall>i<length es. fst (es ! i) \<noteq> k)"
  shows "keys_inj (es[s := (k, p)])"
  unfolding keys_inj_nth
proof (intro allI impI)
  fix i j
  assume i: "i < length (es[s := (k, p)])" and j: "j < length (es[s := (k, p)])"
    and eq: "fst (es[s := (k, p)] ! i) \<noteq> 0 \<and> fst (es[s := (k, p)] ! i) = fst (es[s := (k, p)] ! j)"
  show "i = j"
  proof (cases "i = s")
    case True
    with eq s(1) have k0: "k \<noteq> 0" by simp
    show ?thesis
    proof (rule ccontr)
      assume "i \<noteq> j"
      with True eq s(1) j have "fst (es ! j) = k" by simp
      with k k0 j show False by simp
    qed
  next
    case False
    show ?thesis
    proof (cases "j = s")
      case True
      with False eq s(1) i have "fst (es ! i) = k" "k \<noteq> 0" by auto
      with k i show ?thesis by simp
    next
      case js: False
      with False eq i j inj show ?thesis by (intro keys_injD [of es i j]) auto
    qed
  qed
qed

text \<open>One insertion step: the probe of \<^verbatim>\<open>put\<close> and \<^verbatim>\<open>resize\<close>, then the store.\<close>

lemma insert_step:
  assumes g: "table_geom n msk" and len: "length es = n" and inj: "keys_inj es"
    and ok: "probe_ok es n msk" and occ: "occupied es < n"
    and k: "k = 0 \<or> (\<forall>i<n. fst (es ! i) \<noteq> k)"
  shows "\<exists>s<n. probe_empty es msk (hash k AND msk) = Some s \<and>
           length (es[s := (k, p)]) = n \<and> keys_inj (es[s := (k, p)]) \<and>
           probe_ok (es[s := (k, p)]) n msk \<and>
           occupied (es[s := (k, p)]) = occupied es + (if k \<noteq> 0 then 1 else 0) \<and>
           live (es[s := (k, p)]) = (if k \<noteq> 0 then insert (k, p) (live es) else live es)"
proof -
  from occupied_empty_slot [of es] occ len obtain e where e: "e < n" "fst (es ! e) = 0"
    by auto
  have h: "hash k AND msk < n" using g by (rule geom_home)
  from probe_empty_stops [OF g e h] obtain s where s: "s < n"
    "probe_empty es msk (hash k AND msk) = Some s" "fst (es ! s) = 0"
    "\<forall>t<n. cdist n (hash k AND msk) t < cdist n (hash k AND msk) s \<longrightarrow> fst (es ! t) \<noteq> 0"
    by blast
  have 1: "keys_inj (es[s := (k, p)])"
    using inj s(1,3) k len by (intro keys_inj_fill) auto
  have 2: "probe_ok (es[s := (k, p)]) n msk"
    using len ok s(1,3,4) by (rule probe_ok_fill)
  have 3: "occupied (es[s := (k, p)]) = occupied es + (if k \<noteq> 0 then 1 else 0)"
    using occupied_update [of s es "(k, p)"] s(1,3) len by simp
  have 4: "live (es[s := (k, p)]) = (if k \<noteq> 0 then insert (k, p) (live es) else live es)"
    using live_fill [of s es "(k, p)"] s(1,3) len by simp
  from s(1,2) len 1 2 3 4 show ?thesis by (intro exI [of _ s]) simp
qed

section \<open>resize and the constructor\<close>

lemma grow_cap_pow2:
  "new_cap \<le> 2 ^ K \<Longrightarrow> j \<le> K \<Longrightarrow>
     \<exists>j'. grow_cap (2 ^ j) new_cap = Some (2 ^ j') \<and> j \<le> j' \<and> new_cap \<le> 2 ^ j'"
proof (induction "K - j" arbitrary: j)
  case 0
  then have "\<not> (2::nat) ^ j < new_cap" by simp
  then have "grow_cap (2 ^ j) new_cap = Some (2 ^ j)"
    by (subst grow_cap.simps) simp
  with \<open>\<not> 2 ^ j < new_cap\<close> show ?case by (intro exI [of _ j]) simp
next
  case (Suc d)
  show ?case
  proof (cases "(2::nat) ^ j < new_cap")
    case True
    have "grow_cap (2 ^ j) new_cap = grow_cap (2 ^ Suc j) new_cap"
      using True by (subst grow_cap.simps) simp
    moreover from Suc.hyps(2) have "d = K - Suc j" "Suc j \<le> K" by simp_all
    from Suc.hyps(1) [OF this(1) Suc.prems(1) this(2)] obtain j' where
      "grow_cap (2 ^ Suc j) new_cap = Some (2 ^ j')" "Suc j \<le> j'" "new_cap \<le> 2 ^ j'" by blast
    ultimately show ?thesis by (intro exI [of _ j']) simp
  next
    case False
    then have "grow_cap (2 ^ j) new_cap = Some (2 ^ j)"
      by (subst grow_cap.simps) simp
    with False show ?thesis by (intro exI [of _ j]) simp
  qed
qed

lemma grow_cap_geom:
  assumes "2 \<le> new_cap"
  shows "\<exists>cap. grow_cap 1 new_cap = Some cap \<and> table_geom cap (cap - 1) \<and> new_cap \<le> cap"
proof -
  have "new_cap \<le> 2 ^ new_cap" by simp
  from grow_cap_pow2 [OF this, of 0] obtain j' where
    j: "grow_cap 1 new_cap = Some (2 ^ j')" "new_cap \<le> 2 ^ j'" by auto
  with assms have "j' \<noteq> 0" by (cases j') auto
  then obtain k where "j' = Suc k" by (cases j') auto
  with j show ?thesis unfolding table_geom_def by (intro exI [of _ "2 ^ j'"]) auto
qed

lemma occupied_Cons: "occupied (e # es) = (if fst e \<noteq> 0 then 1 else 0) + occupied es"
  by (simp add: occupied_def)

lemma live_Cons: "live (e # es) = (if fst e \<noteq> 0 then insert e (live es) else live es)"
  by (auto simp: live_def)

lemma keys_inj_Cons:
  "keys_inj (e # es) \<longleftrightarrow>
     (if fst e \<noteq> 0 then (\<forall>x\<in>set es. fst x \<noteq> fst e) \<and> keys_inj es else keys_inj es)"
proof (cases "fst e = 0")
  case True
  then show ?thesis by (simp add: keys_inj_def)
next
  case False
  have "(fst e \<in> fst ` set es) = (\<exists>x\<in>set es. fst x = fst e)"
    by (simp add: image_iff eq_commute)
  with False show ?thesis by (simp add: keys_inj_def)
qed

lemma reinsert_ok:
  assumes g: "table_geom n msk"
  shows "length es = n \<Longrightarrow> keys_inj es \<Longrightarrow> probe_ok es n msk \<Longrightarrow>
     occupied es + occupied old < n \<Longrightarrow> keys_inj old \<Longrightarrow>
     (\<forall>e\<in>set old. fst e \<noteq> 0 \<longrightarrow> (\<forall>i<n. fst (es ! i) \<noteq> fst e)) \<Longrightarrow>
     \<exists>es'. reinsert old msk (es, ld) = Some (es', ld + occupied old) \<and> length es' = n \<and>
       keys_inj es' \<and> probe_ok es' n msk \<and> occupied es' = occupied es + occupied old \<and>
       live es' = live es \<union> live old"
proof (induction old arbitrary: es ld)
  case Nil
  then show ?case by (simp add: occupied_def live_def)
next
  case (Cons e old)
  show ?case
  proof (cases "fst e = 0")
    case True
    from Cons.prems True have p: "occupied es + occupied old < n" "keys_inj old"
      "\<forall>e\<in>set old. fst e \<noteq> 0 \<longrightarrow> (\<forall>i<n. fst (es ! i) \<noteq> fst e)"
      by (simp_all add: occupied_Cons keys_inj_Cons)
    from Cons.IH [OF Cons.prems(1-3) p, of ld] True show ?thesis
      by (simp add: occupied_Cons live_Cons)
  next
    case False
    from Cons.prems False have occ: "occupied es < n" by (simp add: occupied_Cons)
    from Cons.prems(6) False have fresh: "fst e = 0 \<or> (\<forall>i<n. fst (es ! i) \<noteq> fst e)" by simp
    from insert_step [OF g Cons.prems(1-3) occ fresh, of "snd e"] False
    obtain s where s: "s < n" "probe_empty es msk (hash (fst e) AND msk) = Some s"
      "length (es[s := e]) = n" "keys_inj (es[s := e])" "probe_ok (es[s := e]) n msk"
      "occupied (es[s := e]) = occupied es + 1" "live (es[s := e]) = insert e (live es)"
      by auto
    from Cons.prems False s(6) have p1: "occupied (es[s := e]) + occupied old < n"
      by (simp add: occupied_Cons)
    from Cons.prems(5) False have p2: "keys_inj old" and ne: "\<forall>x\<in>set old. fst x \<noteq> fst e"
      by (simp_all add: keys_inj_Cons)
    have p3: "\<forall>x\<in>set old. fst x \<noteq> 0 \<longrightarrow> (\<forall>i<n. fst (es[s := e] ! i) \<noteq> fst x)"
    proof (intro ballI impI allI)
      fix x i assume x: "x \<in> set old" "fst x \<noteq> 0" and i: "i < n"
      show "fst (es[s := e] ! i) \<noteq> fst x"
      proof (cases "i = s")
        case True
        with ne x(1) s(1) Cons.prems(1) show ?thesis by auto
      next
        case False
        with Cons.prems(6) x i show ?thesis by auto
      qed
    qed
    from Cons.IH [OF s(3,4,5) p1 p2 p3, of "ld + 1"] obtain es' where
      "reinsert old msk (es[s := e], ld + 1) = Some (es', ld + 1 + occupied old)"
      "length es' = n" "keys_inj es'" "probe_ok es' n msk"
      "occupied es' = occupied (es[s := e]) + occupied old"
      "live es' = live (es[s := e]) \<union> live old" by blast
    with False s(2,6,7) show ?thesis
      by (intro exI [of _ es']) (simp add: occupied_Cons live_Cons)
  qed
qed

lemma fresh_table:
  "keys_inj (replicate cap (0, Null))" "probe_ok (replicate cap (0, Null)) cap msk"
  "occupied (replicate cap (0, Null)) = 0" "live (replicate cap (0, Null)) = {}"
  by (auto simp: keys_inj_nth probe_ok_def occupied_def live_def)

lemma resize_ok:
  assumes inj: "keys_inj (entries m)" and cap: "2 \<le> new_cap"
    and occ: "occupied (entries m) < new_cap"
  shows "\<exists>m'. OrderMap_resize m new_cap = Some m' \<and> length (entries m') = capacity m' \<and>
     table_geom (capacity m') (mask_v m') \<and> new_cap \<le> capacity m' \<and>
     load m' = occupied (entries m) \<and> occupied (entries m') = occupied (entries m) \<and>
     keys_inj (entries m') \<and> probe_ok (entries m') (capacity m') (mask_v m') \<and>
     live (entries m') = live (entries m)"
proof -
  from grow_cap_geom [OF cap] obtain c where c: "grow_cap 1 new_cap = Some c"
    "table_geom c (c - 1)" "new_cap \<le> c" by blast
  have p: "occupied (replicate c (0, Null)) + occupied (entries m) < c"
    using occ c(3) by (simp add: fresh_table)
  have q: "\<forall>e\<in>set (entries m). fst e \<noteq> 0 \<longrightarrow>
             (\<forall>i<c. fst (replicate c (0, Null) ! i) \<noteq> fst e)" by simp
  from reinsert_ok [OF c(2) _ fresh_table(1,2) p inj q, of 0] obtain es' where es':
    "reinsert (entries m) (c - 1) (replicate c (0, Null), 0) = Some (es', occupied (entries m))"
    "length es' = c" "keys_inj es'" "probe_ok es' c (c - 1)"
    "occupied es' = occupied (entries m)" "live es' = live (entries m)"
    by (auto simp: fresh_table)
  show ?thesis
    using c es'
    by (intro exI [of _ "\<lparr>entries = es', capacity = c, mask_v = c - 1,
            load = occupied (entries m)\<rparr>"])
       (simp add: OrderMap_resize_def)
qed

lemma abs_empty_live:
  assumes "keys_inj (entries m)" "live (entries m) = {}"
  shows "OrderMap_abs m = Map.empty"
proof
  fix k
  show "OrderMap_abs m k = None"
    using abs_live [OF assms(1), of k] assms(2) by (cases "OrderMap_abs m k") auto
qed

lemma abs_ext:
  assumes "keys_inj (entries m)" "keys_inj (entries m')"
    and "\<And>p. (k, p) \<in> live (entries m') \<longleftrightarrow> (k, p) \<in> live (entries m)"
  shows "OrderMap_abs m' k = OrderMap_abs m k"
proof (cases "OrderMap_abs m k")
  case None
  have "OrderMap_abs m' k \<noteq> Some p" for p
    using abs_live [OF assms(1), of k p] abs_live [OF assms(2), of k p] assms(3) None
    by simp
  with None show ?thesis by (cases "OrderMap_abs m' k") auto
next
  case (Some p)
  then show ?thesis
    using abs_live [OF assms(1), of k p] abs_live [OF assms(2), of k p] assms(3)
    by simp
qed

lemma abs_cong_live:
  assumes "keys_inj (entries m)" "keys_inj (entries m')" "live (entries m') = live (entries m)"
  shows "OrderMap_abs m' = OrderMap_abs m"
proof
  fix k
  show "OrderMap_abs m' k = OrderMap_abs m k"
    using assms by (intro abs_ext) simp_all
qed

lemma OrderMap_new_ok:
  assumes "2 \<le> c"
  shows "\<exists>m. OrderMap_new c = Some m \<and> OrderMap_inv m \<and> OrderMap_abs m = Map.empty"
proof -
  let ?m0 = "\<lparr>entries = [], capacity = 0, mask_v = 0, load = 0\<rparr>"
  have "keys_inj (entries ?m0)" "occupied (entries ?m0) < c"
    using assms by (simp_all add: keys_inj_def occupied_def)
  from resize_ok [OF this(1) assms this(2)] obtain m where m:
    "OrderMap_resize ?m0 c = Some m" "length (entries m) = capacity m"
    "table_geom (capacity m) (mask_v m)" "load m = occupied (entries ?m0)"
    "occupied (entries m) = occupied (entries ?m0)" "keys_inj (entries m)"
    "probe_ok (entries m) (capacity m) (mask_v m)" "live (entries m) = live (entries ?m0)"
    by blast
  from m have "OrderMap_inv m" by (simp add: OrderMap_inv_def occupied_def)
  moreover from m(8) have "live (entries m) = {}" by (simp add: live_def)
  with m(6) have "OrderMap_abs m = Map.empty" by (rule abs_empty_live)
  ultimately show ?thesis using m(1) by (simp add: OrderMap_new_def)
qed

section \<open>put inserts\<close>

lemma put_room:
  assumes inv: "OrderMap_inv m"
  shows "\<exists>m1. (if load m * 2 \<ge> capacity m then OrderMap_resize m (capacity m * 2) else Some m)
            = Some m1 \<and>
          length (entries m1) = capacity m1 \<and> table_geom (capacity m1) (mask_v m1) \<and>
          2 * (load m1 + 1) \<le> capacity m1 \<and> occupied (entries m1) \<le> load m1 \<and>
          keys_inj (entries m1) \<and> probe_ok (entries m1) (capacity m1) (mask_v m1) \<and>
          live (entries m1) = live (entries m)"
proof -
  from inv have len: "length (entries m) = capacity m"
    and g: "table_geom (capacity m) (mask_v m)"
    and l: "2 * load m \<le> capacity m" "occupied (entries m) \<le> load m"
    and inj: "keys_inj (entries m)"
    and ok: "probe_ok (entries m) (capacity m) (mask_v m)"
    by (simp_all add: OrderMap_inv_def)
  have n2: "2 \<le> capacity m" using g by (rule geom_ge2)
  show ?thesis
  proof (cases "load m * 2 \<ge> capacity m")
    case True
    have "2 \<le> capacity m * 2" "occupied (entries m) < capacity m * 2"
      using n2 l by simp_all
    from resize_ok [OF inj this] obtain m1 where m1:
      "OrderMap_resize m (capacity m * 2) = Some m1" "length (entries m1) = capacity m1"
      "table_geom (capacity m1) (mask_v m1)" "capacity m * 2 \<le> capacity m1"
      "load m1 = occupied (entries m)" "occupied (entries m1) = occupied (entries m)"
      "keys_inj (entries m1)" "probe_ok (entries m1) (capacity m1) (mask_v m1)"
      "live (entries m1) = live (entries m)" by blast
    have "2 * (load m1 + 1) \<le> capacity m1" using m1(4,5) l n2 by arith
    with True m1 show ?thesis by (intro exI [of _ m1]) simp
  next
    case False
    from g obtain k where "capacity m = 2 ^ Suc k" unfolding table_geom_def by blast
    then have "even (capacity m)" by simp
    with False have "2 * (load m + 1) \<le> capacity m" by presburger
    with False len g l inj ok show ?thesis by (intro exI [of _ m]) simp
  qed
qed

lemma OrderMap_put_ok:
  assumes inv: "OrderMap_inv m" and k: "k = 0 \<or> OrderMap_abs m k = None"
  shows "\<exists>m'. OrderMap_put m k p = Some m' \<and> OrderMap_inv m' \<and>
           OrderMap_abs m' = (if k = 0 then OrderMap_abs m else (OrderMap_abs m)(k \<mapsto> p))"
proof -
  from inv have inj: "keys_inj (entries m)" by (simp add: OrderMap_inv_def)
  from put_room [OF inv] obtain m1 where m1:
    "(if load m * 2 \<ge> capacity m then OrderMap_resize m (capacity m * 2) else Some m) = Some m1"
    "length (entries m1) = capacity m1" "table_geom (capacity m1) (mask_v m1)"
    "2 * (load m1 + 1) \<le> capacity m1" "occupied (entries m1) \<le> load m1"
    "keys_inj (entries m1)" "probe_ok (entries m1) (capacity m1) (mask_v m1)"
    "live (entries m1) = live (entries m)" by blast
  have occ: "occupied (entries m1) < capacity m1" using m1(4,5) by arith
  have same: "OrderMap_abs m1 = OrderMap_abs m"
    using inj m1(6,8) by (rule abs_cong_live)
  have fresh: "k = 0 \<or> (\<forall>i<capacity m1. fst (entries m1 ! i) \<noteq> k)"
    using k same abs_None [OF m1(6), of k] m1(2) by auto
  from insert_step [OF m1(3,2,6,7) occ fresh, of p] obtain s where s: "s < capacity m1"
    "probe_empty (entries m1) (mask_v m1) (hash k AND mask_v m1) = Some s"
    "length ((entries m1)[s := (k, p)]) = capacity m1"
    "keys_inj ((entries m1)[s := (k, p)])"
    "probe_ok ((entries m1)[s := (k, p)]) (capacity m1) (mask_v m1)"
    "occupied ((entries m1)[s := (k, p)]) = occupied (entries m1) + (if k \<noteq> 0 then 1 else 0)"
    "live ((entries m1)[s := (k, p)]) =
       (if k \<noteq> 0 then insert (k, p) (live (entries m1)) else live (entries m1))"
    by blast
  let ?m' = "m1\<lparr>entries := (entries m1)[s := (k, p)], load := load m1 + 1\<rparr>"
  have put: "OrderMap_put m k p = Some ?m'"
    unfolding OrderMap_put_def using m1(1) s(2) by simp
  have inv': "OrderMap_inv ?m'"
    unfolding OrderMap_inv_def using s m1 by auto
  have abs': "OrderMap_abs ?m' = (if k = 0 then OrderMap_abs m else (OrderMap_abs m)(k \<mapsto> p))"
  proof (cases "k = 0")
    case True
    have "OrderMap_abs ?m' = OrderMap_abs m1"
      using m1(6) s(4,7) True by (intro abs_cong_live) auto
    with same True show ?thesis by simp
  next
    case False
    have "OrderMap_abs ?m' = (OrderMap_abs m1)(k \<mapsto> p)"
    proof
      fix x
      show "OrderMap_abs ?m' x = ((OrderMap_abs m1)(k \<mapsto> p)) x"
      proof (cases "x = k")
        case True
        have "(k, p) \<in> live (entries ?m')" using s(7) False by simp
        with abs_live [of ?m' k p] s(4) True show ?thesis by simp
      next
        case xk: False
        have "(x, q) \<in> live (entries ?m') \<longleftrightarrow> (x, q) \<in> live (entries m1)" for q
          using s(7) xk False by auto
        with m1(6) s(4) have "OrderMap_abs ?m' x = OrderMap_abs m1 x"
          by (intro abs_ext) simp_all
        with xk show ?thesis by simp
      qed
    qed
    with same False show ?thesis by simp
  qed
  from put inv' abs' show ?thesis by blast
qed

section \<open>Cyclic distances\<close>

lemma cdist_triangle:
  "a < n \<Longrightarrow> b < n \<Longrightarrow> c < n \<Longrightarrow>
     cdist n a b + cdist n b c = cdist n a c \<or> cdist n a b + cdist n b c = cdist n a c + n"
  by (auto simp: cdist_def)

lemma cdist_split:
  assumes "a < n" "b < n" "c < n" "cdist n b c \<le> cdist n a c"
  shows "cdist n a b + cdist n b c = cdist n a c"
  using cdist_triangle [OF assms(1-3)] cdist_less [OF assms(1,2)] assms(4) by arith

lemma cdist_split_left:
  assumes "a < n" "b < n" "c < n" "cdist n a b \<le> cdist n a c"
  shows "cdist n a b + cdist n b c = cdist n a c"
  using cdist_triangle [OF assms(1-3)] cdist_less [OF assms(2,3)] assms(4) by arith

lemma cdist_pos: "a < n \<Longrightarrow> b < n \<Longrightarrow> a \<noteq> b \<Longrightarrow> 0 < cdist n a b"
  using cdist_eq_0 [of a n b] by simp

lemma cdist_csucc_back: "2 \<le> n \<Longrightarrow> a < n \<Longrightarrow> cdist n (csucc n a) a = n - 1"
  by (auto simp: cdist_def csucc_def)

lemma cdist_csucc_one: "2 \<le> n \<Longrightarrow> a < n \<Longrightarrow> cdist n a (csucc n a) = 1"
  by (auto simp: cdist_def csucc_def)

text \<open>
  The test of \<^verbatim>\<open>remove\<close>: the element at \<open>nxt\<close> is ``validly placed'' exactly when its
  desired slot lies in the cyclic range \<open>(cur, nxt]\<close>.
\<close>

lemma stay_iff:
  assumes "cur < n" "nxt < n" "d < n" "cur \<noteq> nxt"
  shows "\<not> ((cur < nxt \<and> (d \<le> cur \<or> d > nxt)) \<or> (cur > nxt \<and> (d \<le> cur \<and> d > nxt)))
           \<longleftrightarrow> cdist n d nxt < cdist n cur nxt"
  using assms by (auto simp: cdist_def)

section \<open>The backward shift of remove\<close>

lemma shift_inv_exit:
  assumes g: "table_geom n msk" and c: "cur < n" "nxt < n" "cur \<noteq> nxt"
    and inv: "shift_inv es n msk cur nxt" and z: "fst (es ! nxt) = 0"
  shows "probe_ok es n msk"
  unfolding probe_ok_def
proof (intro allI impI)
  fix i s
  let ?h = "hash (fst (es ! i)) AND msk"
  assume i: "i < n" "fst (es ! i) \<noteq> 0" and s: "s < n" and d: "cdist n ?h s < cdist n ?h i"
  have h: "?h < n" using g by (rule geom_home)
  from inv have a: "fst (es ! cur) = 0"
    and b: "\<And>j. j < n \<Longrightarrow> 0 < cdist n cur j \<Longrightarrow> cdist n cur j < cdist n cur nxt \<Longrightarrow>
              cdist n (hash (fst (es ! j)) AND msk) j < cdist n cur j"
    and p: "\<And>j t. j < n \<Longrightarrow> fst (es ! j) \<noteq> 0 \<Longrightarrow> t < n \<Longrightarrow>
              cdist n (hash (fst (es ! j)) AND msk) t < cdist n (hash (fst (es ! j)) AND msk) j \<Longrightarrow>
              fst (es ! t) \<noteq> 0 \<or> t = cur"
    unfolding shift_inv_def by blast+
  show "fst (es ! s) \<noteq> 0"
  proof (rule ccontr)
    assume "\<not> fst (es ! s) \<noteq> 0"
    with p [OF i s d] have sc: "s = cur" by simp
    have ic: "i \<noteq> cur" using a i(2) by auto
    have L1: "cdist n ?h cur + cdist n cur i = cdist n ?h i"
      using d sc by (intro cdist_split_left [OF h c(1) i(1)]) simp
    have ipos: "0 < cdist n cur i" using ic c(1) i(1) by (intro cdist_pos) auto
    show False
    proof (cases "cdist n cur i < cdist n cur nxt")
      case True
      from b [OF i(1) ipos True] L1 show False by arith
    next
      case False
      then have le: "cdist n cur nxt \<le> cdist n cur i" by simp
      have hi: "cdist n ?h i < n" using h i(1) by (rule cdist_less)
      from cdist_triangle [OF h c(1) c(2)] L1 le hi
      have hn: "cdist n ?h cur + cdist n cur nxt = cdist n ?h nxt" by arith
      have "nxt \<noteq> i" using z i(2) by auto
      with cdist_inj [OF h c(2) i(1)] have "cdist n ?h nxt \<noteq> cdist n ?h i" by auto
      with hn L1 le have "cdist n ?h nxt < cdist n ?h i" by arith
      from p [OF i c(2) this] z c(3) show False by simp
    qed
  qed
qed

lemma shift_inv_stay:
  assumes g: "table_geom n msk" and c: "cur < n" "nxt < n" "csucc n nxt \<noteq> cur"
    and inv: "shift_inv es n msk cur nxt" and nz: "fst (es ! nxt) \<noteq> 0"
    and st: "cdist n (hash (fst (es ! nxt)) AND msk) nxt < cdist n cur nxt"
  shows "shift_inv es n msk cur (csucc n nxt)"
proof -
  from inv have a: "fst (es ! cur) = 0"
    and b: "\<And>j. j < n \<Longrightarrow> 0 < cdist n cur j \<Longrightarrow> cdist n cur j < cdist n cur nxt \<Longrightarrow>
              fst (es ! j) \<noteq> 0 \<and> cdist n (hash (fst (es ! j)) AND msk) j < cdist n cur j"
    and p: "\<forall>i<n. fst (es ! i) \<noteq> 0 \<longrightarrow>
        (\<forall>s<n. cdist n (hash (fst (es ! i)) AND msk) s < cdist n (hash (fst (es ! i)) AND msk) i
               \<longrightarrow> fst (es ! s) \<noteq> 0 \<or> s = cur)"
    unfolding shift_inv_def by blast+
  have step: "cdist n cur (csucc n nxt) = cdist n cur nxt + 1"
    using c by (intro cdist_csucc_right) auto
  have b': "fst (es ! j) \<noteq> 0 \<and> cdist n (hash (fst (es ! j)) AND msk) j < cdist n cur j"
    if j: "j < n" "0 < cdist n cur j" "cdist n cur j < cdist n cur (csucc n nxt)" for j
  proof (cases "cdist n cur j < cdist n cur nxt")
    case True
    from b [OF j(1,2) True] show ?thesis .
  next
    case False
    with j(3) step have "cdist n cur j = cdist n cur nxt" by simp
    with cdist_inj [OF c(1) j(1) c(2)] have "j = nxt" by simp
    with nz st show ?thesis by simp
  qed
  show ?thesis unfolding shift_inv_def using a b' p by blast
qed

lemma shift_inv_move:
  assumes g: "table_geom n msk" and len: "length es = n"
    and c: "cur < n" "nxt < n" "cur \<noteq> nxt"
    and inv: "shift_inv es n msk cur nxt" and nz: "fst (es ! nxt) \<noteq> 0"
    and mv: "cdist n cur nxt \<le> cdist n (hash (fst (es ! nxt)) AND msk) nxt"
  shows "shift_inv (es[cur := es ! nxt, nxt := (0, p)]) n msk nxt (csucc n nxt)"
proof -
  let ?es = "es[cur := es ! nxt, nxt := (0, p)]"
  let ?d = "hash (fst (es ! nxt)) AND msk"
  have n2: "2 \<le> n" using g by (rule geom_ge2)
  have d: "?d < n" using g by (rule geom_home)
  have at_nxt: "?es ! nxt = (0, p)" using c len by simp
  have at_cur: "?es ! cur = es ! nxt" using c len by simp
  have at_other: "?es ! i = es ! i" if "i \<noteq> cur" "i \<noteq> nxt" for i using that by simp
  from inv have a: "fst (es ! cur) = 0"
    and q: "\<And>j t. j < n \<Longrightarrow> fst (es ! j) \<noteq> 0 \<Longrightarrow> t < n \<Longrightarrow>
              cdist n (hash (fst (es ! j)) AND msk) t < cdist n (hash (fst (es ! j)) AND msk) j \<Longrightarrow>
              fst (es ! t) \<noteq> 0 \<or> t = cur"
    unfolding shift_inv_def by blast+
  have A: "fst (?es ! nxt) = 0" using at_nxt by simp
  have B: "\<forall>i<n. 0 < cdist n nxt i \<and> cdist n nxt i < cdist n nxt (csucc n nxt) \<longrightarrow>
        fst (?es ! i) \<noteq> 0 \<and> cdist n (hash (fst (?es ! i)) AND msk) i < cdist n nxt i"
    using cdist_csucc_one [OF n2 c(2)] by auto
  have C: "fst (?es ! s) \<noteq> 0 \<or> s = nxt"
    if i: "i < n" "fst (?es ! i) \<noteq> 0" and s: "s < n"
      and ds: "cdist n (hash (fst (?es ! i)) AND msk) s < cdist n (hash (fst (?es ! i)) AND msk) i"
    for i s
  proof (cases "i = cur")
    case True
    with ds at_cur have ds': "cdist n ?d s < cdist n ?d cur" by simp
    have L: "cdist n ?d cur + cdist n cur nxt = cdist n ?d nxt"
      using mv by (intro cdist_split [OF d c(1) c(2)])
    with ds' have "cdist n ?d s < cdist n ?d nxt" by arith
    from q [OF c(2) nz s this] ds' have "fst (es ! s) \<noteq> 0" "s \<noteq> cur" by auto
    moreover have "s \<noteq> nxt"
    proof
      assume "s = nxt"
      with ds' L show False by simp
    qed
    ultimately show ?thesis using at_other [of s] by simp
  next
    case False
    have "i \<noteq> nxt" using i(2) A by auto
    with False at_other [of i] have same: "?es ! i = es ! i" by simp
    with i(2) ds have "fst (es ! i) \<noteq> 0"
      "cdist n (hash (fst (es ! i)) AND msk) s < cdist n (hash (fst (es ! i)) AND msk) i"
      by simp_all
    from q [OF i(1) this(1) s this(2)] have o: "fst (es ! s) \<noteq> 0 \<or> s = cur" .
    show ?thesis
    proof (cases "s = nxt")
      case True
      then show ?thesis by simp
    next
      case sn: False
      show ?thesis
      proof (cases "s = cur")
        case True
        with at_cur nz show ?thesis by simp
      next
        case sc: False
        with sn o at_other [of s] show ?thesis by simp
      qed
    qed
  qed
  show ?thesis unfolding shift_inv_def using A B C by blast
qed

lemma keys_inj_move:
  assumes inj: "keys_inj es" and c: "cur < length es" "nxt < length es" "cur \<noteq> nxt"
    and z: "fst (es ! cur) = 0"
  shows "keys_inj (es[cur := es ! nxt, nxt := (0, p)])"
  unfolding keys_inj_nth
proof (intro allI impI)
  let ?es = "es[cur := es ! nxt, nxt := (0, p)]"
  fix i j
  assume i: "i < length ?es" and j: "j < length ?es"
    and eq: "fst (?es ! i) \<noteq> 0 \<and> fst (?es ! i) = fst (?es ! j)"
  define f where "f x = (if x = cur then nxt else x)" for x
  have key: "fst (?es ! x) = fst (es ! f x)" if "x < length es" "x \<noteq> nxt" for x
    using that c by (auto simp: f_def)
  have "fst (?es ! nxt) = 0" using c by simp
  with eq have ne: "i \<noteq> nxt" "j \<noteq> nxt" by auto
  have fl: "f i < length es" "f j < length es" using i j c by (auto simp: f_def)
  have ki: "fst (?es ! i) = fst (es ! f i)" using key [of i] ne i by simp
  have kj: "fst (?es ! j) = fst (es ! f j)" using key [of j] ne j by simp
  from eq have "fst (es ! f i) \<noteq> 0 \<and> fst (es ! f i) = fst (es ! f j)"
    unfolding ki kj .
  with inj fl have "f i = f j" by (intro keys_injD [of es]) auto
  with ne show "i = j" by (auto simp: f_def split: if_splits)
qed

lemma live_move:
  assumes c: "cur < length es" "nxt < length es" "cur \<noteq> nxt" and z: "fst (es ! cur) = 0"
  shows "live (es[cur := es ! nxt, nxt := (0, p)]) = live es"
proof -
  let ?es = "es[cur := es ! nxt, nxt := (0, p)]"
  have "(k, q) \<in> live ?es \<longleftrightarrow> (k, q) \<in> live es" for k q
  proof
    assume "(k, q) \<in> live ?es"
    then obtain i where i: "k \<noteq> 0" "i < length es" "?es ! i = (k, q)"
      by (auto simp: live_nth)
    with c have "i \<noteq> nxt" by auto
    show "(k, q) \<in> live es"
    proof (cases "i = cur")
      case True
      with i c have "es ! nxt = (k, q)" by simp
      with i(1) c(2) show ?thesis unfolding live_nth by blast
    next
      case False
      with \<open>i \<noteq> nxt\<close> i have "es ! i = (k, q)" by simp
      with i(1,2) show ?thesis unfolding live_nth by blast
    qed
  next
    assume "(k, q) \<in> live es"
    then obtain i where i: "k \<noteq> 0" "i < length es" "es ! i = (k, q)"
      by (auto simp: live_nth)
    with z have ic: "i \<noteq> cur" by auto
    show "(k, q) \<in> live ?es"
    proof (cases "i = nxt")
      case True
      with i c have "?es ! cur = (k, q)" by simp
      with i(1) c(1) show ?thesis unfolding live_nth by auto
    next
      case False
      with ic i have "?es ! i = (k, q)" by simp
      with i(1,2) show ?thesis unfolding live_nth by auto
    qed
  qed
  then show ?thesis by auto
qed

lemma occupied_move:
  assumes c: "cur < length es" "nxt < length es" "cur \<noteq> nxt"
    and z: "fst (es ! cur) = 0" and nz: "fst (es ! nxt) \<noteq> 0"
  shows "occupied (es[cur := es ! nxt, nxt := (0, p)]) = occupied es"
proof -
  have 1: "occupied (es[cur := es ! nxt]) = occupied es + 1"
    using occupied_update [OF c(1), of "es ! nxt"] z nz by simp
  have "occupied (es[cur := es ! nxt, nxt := (0, p)]) + 1 = occupied (es[cur := es ! nxt])"
    using occupied_update [of nxt "es[cur := es ! nxt]" "(0, p)"] c nz by simp
  with 1 show ?thesis by simp
qed

lemma backshift_ok:
  assumes g: "table_geom n msk" and e: "e < n"
  shows "length es = n \<Longrightarrow> keys_inj es \<Longrightarrow> cur < n \<Longrightarrow> nxt < n \<Longrightarrow>
     fst (es ! e) = 0 \<Longrightarrow> cdist n nxt e < cdist n nxt cur \<Longrightarrow> shift_inv es n msk cur nxt \<Longrightarrow>
     \<exists>es'. backshift es msk cur nxt = Some es' \<and> length es' = n \<and> keys_inj es' \<and>
       probe_ok es' n msk \<and> live es' = live es \<and> occupied es' = occupied es"
proof (induction "cdist n nxt e" arbitrary: es cur nxt rule: less_induct)
  case less
  note len = less.prems(1) and inj = less.prems(2) and c = less.prems(3,4)
    and ez = less.prems(5) and ed = less.prems(6) and inv = less.prems(7)
  have n2: "2 \<le> n" using g by (rule geom_ge2)
  have cn: "cur \<noteq> nxt" using ed by (auto simp: cdist_self)
  from inv have hole: "fst (es ! cur) = 0" by (simp add: shift_inv_def)
  show ?case
  proof (cases "fst (es ! nxt) = 0")
    case True
    have "backshift es msk cur nxt = Some es"
      by (subst backshift.simps) (simp add: True)
    moreover have "probe_ok es n msk"
      using g c cn inv True by (rule shift_inv_exit)
    ultimately show ?thesis using len inj by simp
  next
    case False
    let ?d = "hash (fst (es ! nxt)) AND msk"
    let ?nx = "csucc n nxt"
    have d: "?d < n" using g by (rule geom_home)
    have nx: "?nx < n" using n2 by (rule csucc_less)
    have ne: "nxt \<noteq> e" using False ez by auto
    have de: "cdist n ?nx e = cdist n nxt e - 1" using c(2) e ne by (rule cdist_csucc)
    have epos: "0 < cdist n nxt e" using c(2) e ne by (rule cdist_pos)
    have less': "cdist n ?nx e < cdist n nxt e" using de epos by simp
    have suc: "(nxt + 1) AND msk = ?nx" using geom_succ [OF g c(2)] by simp
    let ?C = "(cur < nxt \<and> (?d \<le> cur \<or> ?d > nxt)) \<or> (cur > nxt \<and> (?d \<le> cur \<and> ?d > nxt))"
    show ?thesis
    proof (cases "cdist n ?d nxt < cdist n cur nxt")
      case True
      have dc: "cdist n ?nx cur = cdist n nxt cur - 1"
        using c cn by (intro cdist_csucc) auto
      have ed': "cdist n ?nx e < cdist n ?nx cur" using de dc ed epos by arith
      then have nc: "?nx \<noteq> cur" by (auto simp: cdist_self)
      have inv': "shift_inv es n msk cur ?nx"
        using g c nc inv False True by (rule shift_inv_stay)
      from less.hyps [OF less' len inj c(1) nx ez ed' inv'] obtain es' where es':
        "backshift es msk cur ?nx = Some es'" "length es' = n" "keys_inj es'"
        "probe_ok es' n msk" "live es' = live es" "occupied es' = occupied es" by blast
      have cond: "\<not> ?C" using True stay_iff [OF c d cn] by blast
      have "backshift es msk cur nxt = backshift es msk cur ?nx"
        by (subst backshift.simps)
           (simp only: Let_def False cond suc not_False_eq_True if_True if_False)
      with es' show ?thesis by simp
    next
      case mv: False
      let ?es = "es[cur := es ! nxt, nxt := (0, snd (es ! nxt))]"
      have len': "length ?es = n" using len by simp
      have inj': "keys_inj ?es" using inj c cn hole len by (intro keys_inj_move) auto
      have ec: "e \<noteq> cur" using ed by auto
      have ez': "fst (?es ! e) = 0" using ez ec ne by simp
      have "cdist n ?nx nxt = n - 1" using n2 c(2) by (rule cdist_csucc_back)
      moreover have "cdist n nxt e < n" using c(2) e by (rule cdist_less)
      ultimately have ed': "cdist n ?nx e < cdist n ?nx nxt" using de epos by arith
      have inv': "shift_inv ?es n msk nxt ?nx"
        using g len c cn inv False mv by (intro shift_inv_move) auto
      from less.hyps [OF less' len' inj' c(2) nx ez' ed' inv'] obtain es' where es':
        "backshift ?es msk nxt ?nx = Some es'" "length es' = n" "keys_inj es'"
        "probe_ok es' n msk" "live es' = live ?es" "occupied es' = occupied ?es" by blast
      have cond: "?C" using mv stay_iff [OF c d cn] by blast
      have "backshift es msk cur nxt = backshift ?es msk nxt ?nx"
        by (subst backshift.simps)
           (simp only: Let_def False cond suc not_False_eq_True not_True_eq_False
              if_True if_False)
      moreover have "live ?es = live es" using c cn hole len by (intro live_move) auto
      moreover have "occupied ?es = occupied es"
        using c cn hole False len by (intro occupied_move) auto
      ultimately show ?thesis using es' by simp
    qed
  qed
qed

section \<open>remove\<close>

lemma remove_loop_skip:
  assumes g: "table_geom n msk" and s: "s < n"
  shows "idx < n \<Longrightarrow>
     (\<forall>t<n. cdist n idx t < cdist n idx s \<longrightarrow> fst (es ! t) \<noteq> 0 \<and> fst (es ! t) \<noteq> k) \<Longrightarrow>
     remove_loop es msk ld k idx = remove_loop es msk ld k s"
proof (induction "cdist n idx s" arbitrary: idx rule: less_induct)
  case less
  show ?case
  proof (cases "idx = s")
    case True
    then show ?thesis by simp
  next
    case False
    have n2: "2 \<le> n" using g by (rule geom_ge2)
    let ?i = "csucc n idx"
    have i: "?i < n" using n2 by (rule csucc_less)
    have pos: "0 < cdist n idx s" using less.prems(1) s False by (rule cdist_pos)
    with less.prems have key: "fst (es ! idx) \<noteq> 0" "fst (es ! idx) \<noteq> k"
      by (auto simp: cdist_self)
    have d: "cdist n ?i s = cdist n idx s - 1" using less.prems(1) s False by (rule cdist_csucc)
    have suc: "(idx + 1) AND msk = ?i" using geom_succ [OF g less.prems(1)] by simp
    have step: "remove_loop es msk ld k idx = remove_loop es msk ld k ?i"
      by (subst remove_loop.simps) (simp only: key suc not_False_eq_True if_True if_False)
    have "\<forall>t<n. cdist n ?i t < cdist n ?i s \<longrightarrow> fst (es ! t) \<noteq> 0 \<and> fst (es ! t) \<noteq> k"
    proof (intro allI impI)
      fix t assume t: "t < n" "cdist n ?i t < cdist n ?i s"
      have "t \<noteq> idx"
      proof
        assume "t = idx"
        with t(2) cdist_csucc_back [OF n2 less.prems(1)] cdist_less [OF i s] show False
          by simp
      qed
      then have "cdist n ?i t = cdist n idx t - 1"
        using less.prems(1) t(1) by (intro cdist_csucc) auto
      with t(2) d pos have "cdist n idx t < cdist n idx s" by arith
      with less.prems(2) t(1) show "fst (es ! t) \<noteq> 0 \<and> fst (es ! t) \<noteq> k" by blast
    qed
    from less.hyps [OF _ i this] d pos step show ?thesis by simp
  qed
qed

lemma keys_inj_clear:
  assumes inj: "keys_inj es" and i: "i < length es"
  shows "keys_inj (es[i := (0, p)])"
  unfolding keys_inj_nth
proof (intro allI impI)
  let ?es = "es[i := (0, p)]"
  fix a b
  assume a: "a < length ?es" and b: "b < length ?es"
    and eq: "fst (?es ! a) \<noteq> 0 \<and> fst (?es ! a) = fst (?es ! b)"
  have "fst (?es ! i) = 0" using i by simp
  with eq have ne: "a \<noteq> i" "b \<noteq> i" by auto
  then have ea: "?es ! a = es ! a" and eb: "?es ! b = es ! b" by simp_all
  from eq have "fst (es ! a) \<noteq> 0 \<and> fst (es ! a) = fst (es ! b)" unfolding ea eb .
  with inj a b show "a = b" by (intro keys_injD [of es]) auto
qed

lemma shift_inv_start:
  assumes g: "table_geom n msk" and len: "length es = n" and ok: "probe_ok es n msk"
    and i: "i < n"
  shows "shift_inv (es[i := (0, p)]) n msk i (csucc n i)"
proof -
  let ?es = "es[i := (0, p)]"
  have n2: "2 \<le> n" using g by (rule geom_ge2)
  have A: "fst (?es ! i) = 0" using i len by simp
  have B: "\<forall>j<n. 0 < cdist n i j \<and> cdist n i j < cdist n i (csucc n i) \<longrightarrow>
        fst (?es ! j) \<noteq> 0 \<and> cdist n (hash (fst (?es ! j)) AND msk) j < cdist n i j"
    using cdist_csucc_one [OF n2 i] by auto
  have C: "fst (?es ! s) \<noteq> 0 \<or> s = i"
    if j: "j < n" "fst (?es ! j) \<noteq> 0" and s: "s < n"
      and d: "cdist n (hash (fst (?es ! j)) AND msk) s < cdist n (hash (fst (?es ! j)) AND msk) j"
    for j s
  proof (cases "s = i")
    case True
    then show ?thesis by simp
  next
    case False
    have "j \<noteq> i" using j(2) A by auto
    then have same: "?es ! j = es ! j" by simp
    with j(2) d have "fst (es ! j) \<noteq> 0"
      "cdist n (hash (fst (es ! j)) AND msk) s < cdist n (hash (fst (es ! j)) AND msk) j"
      by simp_all
    with ok j(1) s have "fst (es ! s) \<noteq> 0" unfolding probe_ok_def by blast
    with False show ?thesis by simp
  qed
  show ?thesis unfolding shift_inv_def using A B C by blast
qed

lemma remove_loop_present:
  assumes g: "table_geom n msk" and len: "length es = n" and inj: "keys_inj es"
    and ok: "probe_ok es n msk" and occ: "occupied es < n"
    and i: "i < n" "fst (es ! i) = k" "k \<noteq> 0"
  shows "\<exists>es'. remove_loop es msk ld k (hash k AND msk) = Some (es', dec_size_t ld) \<and>
           length es' = n \<and> keys_inj es' \<and> probe_ok es' n msk \<and>
           live es' = live es - {es ! i} \<and> occupied es' + 1 = occupied es"
proof -
  let ?h = "hash k AND msk"
  have n2: "2 \<le> n" using g by (rule geom_ge2)
  have h: "?h < n" using g by (rule geom_home)
  from find_loop_stops [OF g i(1) _ h, of es k] i(2) obtain s where s: "s < n"
    "fst (es ! s) = 0 \<or> fst (es ! s) = k"
    "cdist n ?h s \<le> cdist n ?h i"
    "\<forall>t<n. cdist n ?h t < cdist n ?h s \<longrightarrow> fst (es ! t) \<noteq> 0 \<and> fst (es ! t) \<noteq> k"
    by blast
  have si: "s = i"
  proof (rule ccontr)
    assume ne: "s \<noteq> i"
    with cdist_inj [OF h s(1) i(1)] s(3) have "cdist n ?h s < cdist n ?h i" by fastforce
    with ok i s(1) have "fst (es ! s) \<noteq> 0" unfolding probe_ok_def by blast
    with s(2) have "fst (es ! s) = k" by simp
    with inj len s(1) i have "s = i" by (intro keys_injD [of es s i]) auto
    with ne show False ..
  qed
  from remove_loop_skip [OF g i(1) h, of es k ld] s(4) si
  have skip: "remove_loop es msk ld k ?h = remove_loop es msk ld k i" by simp
  let ?es = "es[i := (0, snd (es ! i))]"
  let ?nx = "csucc n i"
  from occupied_empty_slot [of es] occ len obtain e where e: "e < n" "fst (es ! e) = 0"
    by auto
  with i have ei: "e \<noteq> i" by auto
  have nx: "?nx < n" using n2 by (rule csucc_less)
  have len': "length ?es = n" using len by simp
  have inj': "keys_inj ?es" using inj i(1) len by (intro keys_inj_clear) auto
  have ez: "fst (?es ! e) = 0" using e ei by simp
  have "cdist n ?nx e = cdist n i e - 1" using i(1) e(1) ei by (intro cdist_csucc) auto
  moreover have "0 < cdist n i e" using i(1) e(1) ei by (intro cdist_pos) auto
  moreover have "cdist n i e < n" using i(1) e(1) by (rule cdist_less)
  moreover have "cdist n ?nx i = n - 1" using n2 i(1) by (rule cdist_csucc_back)
  ultimately have ed: "cdist n ?nx e < cdist n ?nx i" by arith
  have sinv: "shift_inv ?es n msk i ?nx" using g len ok i(1) by (rule shift_inv_start)
  from backshift_ok [OF g e(1) len' inj' i(1) nx ez ed sinv] obtain es' where es':
    "backshift ?es msk i ?nx = Some es'" "length es' = n" "keys_inj es'"
    "probe_ok es' n msk" "live es' = live ?es" "occupied es' = occupied ?es" by blast
  have suc: "(i + 1) AND msk = ?nx" using geom_succ [OF g i(1)] by simp
  have nz: "fst (es ! i) \<noteq> 0" using i by simp
  have "remove_loop es msk ld k i = Some (es', dec_size_t ld)"
    by (subst remove_loop.simps)
       (simp only: nz i(2,3) suc es'(1) if_True simp_thms Option.bind.simps)
  moreover have "live ?es = live es - {es ! i}"
    using inj i(1) len by (intro live_clear) auto
  moreover have "occupied ?es + 1 = occupied es"
    using occupied_update [of i es "(0, snd (es ! i))"] i len by simp
  ultimately show ?thesis using skip es' by simp
qed

lemma remove_loop_absent:
  assumes g: "table_geom n msk" and len: "length es = n"
    and e: "e < n" "fst (es ! e) = 0"
    and k: "k = 0 \<or> (\<forall>i<n. fst (es ! i) \<noteq> k)"
  shows "remove_loop es msk ld k (hash k AND msk) = Some (es, ld)"
proof -
  let ?h = "hash k AND msk"
  have h: "?h < n" using g by (rule geom_home)
  from find_loop_stops [OF g e(1) _ h, of es k] e(2) obtain s where s: "s < n"
    "fst (es ! s) = 0 \<or> fst (es ! s) = k"
    "\<forall>t<n. cdist n ?h t < cdist n ?h s \<longrightarrow> fst (es ! t) \<noteq> 0 \<and> fst (es ! t) \<noteq> k"
    by blast
  from s(1,2) k have z: "fst (es ! s) = 0" by auto
  from remove_loop_skip [OF g s(1) h, of es k ld] s(3)
  have "remove_loop es msk ld k ?h = remove_loop es msk ld k s" by simp
  also have "\<dots> = Some (es, ld)"
    by (subst remove_loop.simps) (simp add: z)
  finally show ?thesis .
qed

lemma OrderMap_remove_ok:
  assumes inv: "OrderMap_inv m"
  shows "\<exists>m'. OrderMap_remove m k = Some m' \<and> OrderMap_inv m' \<and>
           OrderMap_abs m' = (OrderMap_abs m)(k := None)"
proof -
  from inv have len: "length (entries m) = capacity m"
    and g: "table_geom (capacity m) (mask_v m)"
    and l: "2 * load m \<le> capacity m" "occupied (entries m) \<le> load m"
    and inj: "keys_inj (entries m)"
    and ok: "probe_ok (entries m) (capacity m) (mask_v m)"
    by (simp_all add: OrderMap_inv_def)
  have n2: "2 \<le> capacity m" using g by (rule geom_ge2)
  have occ: "occupied (entries m) < capacity m" using l n2 by arith
  show ?thesis
  proof (cases "OrderMap_abs m k")
    case None
    from inv_empty_slot [OF inv] obtain e where e: "e < capacity m" "fst (entries m ! e) = 0"
      by blast
    from None abs_None [OF inj, of k] len
    have "k = 0 \<or> (\<forall>i<capacity m. fst (entries m ! i) \<noteq> k)" by simp
    from remove_loop_absent [OF g len e this, of "load m"]
    have "OrderMap_remove m k = Some m" by (simp add: OrderMap_remove_def)
    moreover have "(OrderMap_abs m)(k := None) = OrderMap_abs m" using None by auto
    ultimately show ?thesis using inv by simp
  next
    case (Some p)
    with abs_live [OF inj, of k p] obtain i where i: "i < capacity m" "entries m ! i = (k, p)"
      and k: "k \<noteq> 0" using len by (auto simp: live_nth)
    from i(2) have ki: "fst (entries m ! i) = k" by simp
    from remove_loop_present [OF g len inj ok occ i(1) ki k, of "load m"] i(2)
    obtain es' where es':
      "remove_loop (entries m) (mask_v m) (load m) k (hash k AND mask_v m)
         = Some (es', dec_size_t (load m))"
      "length es' = capacity m" "keys_inj es'" "probe_ok es' (capacity m) (mask_v m)"
      "live es' = live (entries m) - {(k, p)}" "occupied es' + 1 = occupied (entries m)"
      by auto
    let ?m' = "m\<lparr>entries := es', load := dec_size_t (load m)\<rparr>"
    have rm: "OrderMap_remove m k = Some ?m'" by (simp add: OrderMap_remove_def es'(1))
    have lpos: "0 < load m" using es'(6) l(2) by arith
    then have dec: "dec_size_t (load m) = load m - 1" by (simp add: dec_size_t_def)
    have o: "occupied es' \<le> load m - 1" using es'(6) l(2) by arith
    have t: "2 * (load m - 1) \<le> capacity m" using l(1) by arith
    have inv': "OrderMap_inv ?m'"
      unfolding OrderMap_inv_def using es'(2,3,4) g o t dec by simp
    have abs': "OrderMap_abs ?m' = (OrderMap_abs m)(k := None)"
    proof
      fix x
      show "OrderMap_abs ?m' x = ((OrderMap_abs m)(k := None)) x"
      proof (cases "x = k")
        case True
        have "OrderMap_abs ?m' k \<noteq> Some q" for q
        proof
          assume "OrderMap_abs ?m' k = Some q"
          with abs_live [of ?m' k q] es'(3) have "(k, q) \<in> live es'" by simp
          with es'(5) have in_old: "(k, q) \<in> live (entries m)" and ne: "q \<noteq> p" by auto
          from in_old abs_live [OF inj, of k q] Some have "q = p" by simp
          with ne show False ..
        qed
        then have "OrderMap_abs ?m' k = None" by (cases "OrderMap_abs ?m' k") auto
        with True show ?thesis by simp
      next
        case False
        have "(x, q) \<in> live (entries ?m') \<longleftrightarrow> (x, q) \<in> live (entries m)" for q
          using es'(5) False by auto
        with inj es'(3) have "OrderMap_abs ?m' x = OrderMap_abs m x"
          by (intro abs_ext) simp_all
        with False show ?thesis by simp
      qed
    qed
    from rm inv' abs' show ?thesis by blast
  qed
qed

section \<open>Reachable tables\<close>

lemma OrderMap_reach_inv:
  "OrderMap_reach m f \<Longrightarrow> OrderMap_inv m \<and> OrderMap_abs m = f"
proof (induction rule: OrderMap_reach.induct)
  case (reach_new c m)
  with OrderMap_new_ok [of c] show ?case by auto
next
  case (reach_put m f k p m')
  with OrderMap_put_ok [of m k p] show ?case by auto
next
  case (reach_remove m f k m')
  with OrderMap_remove_ok [of m k] show ?case by auto
qed

text \<open>
  C6.  In every \<^verbatim>\<open>OrderMap\<close> state reachable by \<^verbatim>\<open>put\<close> and \<^verbatim>\<open>remove\<close> with distinct nonzero
  ids, for every id \<open>I\<close> that is stored: \<^verbatim>\<open>remove(I)\<close> returns, \<^verbatim>\<open>find(I)\<close> is then null, and
  every other stored id \<open>K\<close> is still found with the order reference it was stored with.
\<close>

theorem remove_keeps_others:
  assumes "OrderMap_reach m f" and "f I = Some r"
  shows "\<exists>m'. OrderMap_remove m I = Some m' \<and> OrderMap_find m' I = Some Null \<and>
           (\<forall>K p. K \<noteq> I \<and> f K = Some p \<longrightarrow> OrderMap_find m' K = Some p)"
proof -
  from OrderMap_reach_inv [OF assms(1)] have inv: "OrderMap_inv m" and abs: "OrderMap_abs m = f"
    by simp_all
  from OrderMap_remove_ok [OF inv, of I] obtain m' where m': "OrderMap_remove m I = Some m'"
    "OrderMap_inv m'" "OrderMap_abs m' = (OrderMap_abs m)(I := None)" by blast
  have "OrderMap_find m' I = Some Null"
    using OrderMap_find_abs [OF m'(2), of I] m'(3) by simp
  moreover have "OrderMap_find m' K = Some p" if "K \<noteq> I" "f K = Some p" for K p
    using OrderMap_find_abs [OF m'(2), of K] m'(3) abs that by simp
  ultimately show ?thesis using m'(1) by blast
qed

text \<open>
  A table of capacity 4 in which the probe cluster wraps around: id 3 sits in its home
  slot 3, id 7 (home slot 3) in slot 0.  Removing 3 shifts 7 back into slot 3.
\<close>

theorem remove_keeps_others_witness:
  "OrderMap_reach
     \<lparr>entries = [(7, Addr 70), (0, Null), (0, Null), (3, Addr 30)],
        capacity = 4, mask_v = 3, load = 2\<rparr>
     [3 \<mapsto> Addr 30, 7 \<mapsto> Addr 70] \<and>
   OrderMap_remove
     \<lparr>entries = [(7, Addr 70), (0, Null), (0, Null), (3, Addr 30)],
        capacity = 4, mask_v = 3, load = 2\<rparr> 3 =
     Some \<lparr>entries = [(0, Addr 70), (0, Null), (0, Null), (7, Addr 70)],
            capacity = 4, mask_v = 3, load = 1\<rparr> \<and>
   OrderMap_find
     \<lparr>entries = [(0, Addr 70), (0, Null), (0, Null), (7, Addr 70)],
        capacity = 4, mask_v = 3, load = 1\<rparr> 3 = Some Null \<and>
   OrderMap_find
     \<lparr>entries = [(0, Addr 70), (0, Null), (0, Null), (7, Addr 70)],
        capacity = 4, mask_v = 3, load = 1\<rparr> 7 = Some (Addr 70)"
proof -
  let ?m0 = "\<lparr>entries = [(0, Null), (0, Null), (0, Null), (0, Null)],
                capacity = 4, mask_v = 3, load = 0\<rparr>"
  let ?m1 = "\<lparr>entries = [(0, Null), (0, Null), (0, Null), (3, Addr 30)],
                capacity = 4, mask_v = 3, load = 1\<rparr>"
  let ?m2 = "\<lparr>entries = [(7, Addr 70), (0, Null), (0, Null), (3, Addr 30)],
                capacity = 4, mask_v = 3, load = 2\<rparr>"
  let ?m3 = "\<lparr>entries = [(0, Addr 70), (0, Null), (0, Null), (7, Addr 70)],
                capacity = 4, mask_v = 3, load = 1\<rparr>"
  have new: "OrderMap_new 4 = Some ?m0" by code_simp
  have put1: "OrderMap_put ?m0 3 (Addr 30) = Some ?m1" by code_simp
  have put2: "OrderMap_put ?m1 7 (Addr 70) = Some ?m2" by code_simp
  have rm: "OrderMap_remove ?m2 3 = Some ?m3" by code_simp
  have r0: "OrderMap_reach ?m0 Map.empty"
    using new by (intro reach_new [of 4]) simp_all
  have r1: "OrderMap_reach ?m1 [3 \<mapsto> Addr 30]"
    using reach_put [OF r0 _ _ put1] by simp
  have r2: "OrderMap_reach ?m2 [3 \<mapsto> Addr 30, 7 \<mapsto> Addr 70]"
    using reach_put [OF r1 _ _ put2] by simp
  from remove_keeps_others [OF r2, of 3 "Addr 30"] rm
  have "OrderMap_find ?m3 3 = Some Null"
    and "\<forall>K p. K \<noteq> 3 \<and> [3 \<mapsto> Addr 30, 7 \<mapsto> Addr 70] K = Some p \<longrightarrow> OrderMap_find ?m3 K = Some p"
    by simp_all
  then have "OrderMap_find ?m3 3 = Some Null" "OrderMap_find ?m3 7 = Some (Addr 70)"
    by simp_all
  with r2 rm show ?thesis by simp
qed

section \<open>The ordered maps\<close>

lemma map_of_map_put: "map_of (map_put buy k v xs) = (map_of xs)(k \<mapsto> v)"
  by (induction xs) (auto simp: fun_eq_iff)

lemma map_of_map_erase: "map_of (map_erase k xs) = (map_of xs)(k := None)"
  by (induction xs) (auto simp: map_erase_def fun_eq_iff)

lemma keys_map_put: "fst ` set (map_put buy k v xs) = insert k (fst ` set xs)"
proof (induction xs)
  case Nil
  then show ?case by simp
next
  case (Cons x xs)
  obtain k' v' where x: "x = (k', v')" by (cases x)
  with Cons.IH show ?case by (simp add: insert_commute)
qed

lemma before_trans: "before buy a b \<Longrightarrow> before buy b c \<Longrightarrow> before buy a c"
  by (auto simp: before_def split: if_splits)

lemma before_irrefl: "\<not> before buy a a"
  by (simp add: before_def)

lemma before_total: "a \<noteq> b \<Longrightarrow> \<not> before buy a b \<Longrightarrow> before buy b a"
  by (auto simp: before_def split: if_splits)

lemma sorted_map_put:
  "sorted_wrt (before buy) (map fst xs) \<Longrightarrow> sorted_wrt (before buy) (map fst (map_put buy k v xs))"
proof (induction xs)
  case Nil
  then show ?case by simp
next
  case (Cons x xs)
  obtain k' v' where x: "x = (k', v')" by (cases x)
  from Cons.prems x have tl: "sorted_wrt (before buy) (map fst xs)"
    and hd: "\<forall>y\<in>set xs. before buy k' (fst y)" by auto
  show ?case
  proof (cases "k = k'")
    case True
    with Cons.prems x show ?thesis by simp
  next
    case False
    show ?thesis
    proof (cases "before buy k k'")
      case True
      with hd have "\<forall>y\<in>set xs. before buy k (fst y)" using before_trans by blast
      with True False Cons.prems x show ?thesis by simp
    next
      case nb: False
      with False have "before buy k' k" by (intro before_total) auto
      with hd have "\<forall>y\<in>fst ` set (map_put buy k v xs). before buy k' y"
        unfolding keys_map_put by auto
      with nb False x Cons.IH [OF tl] show ?thesis by auto
    qed
  qed
qed

lemma sorted_map_erase:
  "sorted_wrt (before buy) (map fst xs) \<Longrightarrow> sorted_wrt (before buy) (map fst (map_erase k xs))"
  by (induction xs) (auto simp: map_erase_def)

lemma sorted_distinct_keys:
  "sorted_wrt (before buy) (map fst xs) \<Longrightarrow> distinct (map fst xs)"
  by (induction xs) (auto simp: before_irrefl)

lemma map_of_sorted_iff:
  "sorted_wrt (before buy) (map fst xs) \<Longrightarrow> map_of xs k = Some v \<longleftrightarrow> (k, v) \<in> set xs"
  using sorted_distinct_keys [of buy xs] by (simp add: map_of_eq_Some_iff)

lemma set_map_put:
  "sorted_wrt (before buy) (map fst xs) \<Longrightarrow>
     set (map_put buy k v xs) = insert (k, v) {x \<in> set xs. fst x \<noteq> k}"
proof (induction xs)
  case Nil
  then show ?case by simp
next
  case (Cons x xs)
  obtain k' v' where x: "x = (k', v')" by (cases x)
  from Cons.prems x have tl: "sorted_wrt (before buy) (map fst xs)"
    and hd: "\<forall>y\<in>set xs. before buy k' (fst y)" by auto
  show ?case
  proof (cases "k = k'")
    case True
    from hd have "\<forall>y\<in>set xs. fst y \<noteq> k'" using before_irrefl by metis
    with True x show ?thesis by auto
  next
    case False
    show ?thesis
    proof (cases "before buy k k'")
      case True
      with hd have "\<forall>y\<in>set xs. before buy k (fst y)" using before_trans by blast
      then have "\<forall>y\<in>set xs. fst y \<noteq> k" using before_irrefl by metis
      with True False x show ?thesis by auto
    next
      case nb: False
      with False x Cons.IH [OF tl] show ?thesis by auto
    qed
  qed
qed

lemma set_map_erase: "set (map_erase k xs) = {x \<in> set xs. fst x \<noteq> k}"
  by (auto simp: map_erase_def)

lemma map_put_same:
  "sorted_wrt (before buy) (map fst xs) \<Longrightarrow> map_of xs k = Some v \<Longrightarrow> map_put buy k v xs = xs"
proof (induction xs)
  case Nil
  then show ?case by simp
next
  case (Cons x xs)
  obtain k' v' where x: "x = (k', v')" by (cases x)
  from Cons.prems x have tl: "sorted_wrt (before buy) (map fst xs)"
    and hd: "\<forall>y\<in>set xs. before buy k' (fst y)" by auto
  show ?case
  proof (cases "k = k'")
    case True
    with Cons.prems x show ?thesis by simp
  next
    case False
    with Cons.prems x have m: "map_of xs k = Some v" by simp
    then have "(k, v) \<in> set xs" by (rule map_of_SomeD)
    with hd have "before buy k' k" by auto
    then have "\<not> before buy k k'" using before_trans before_irrefl by blast
    with False x Cons.IH [OF tl m] show ?thesis by simp
  qed
qed

lemma map_put_twice:
  "map_put buy k v (map_put buy k w xs) = map_put buy k v xs"
  by (induction xs) (auto simp: before_irrefl)

lemma map_erase_map_put:
  "sorted_wrt (before buy) (map fst xs) \<Longrightarrow> map_of xs k = None \<Longrightarrow>
     map_erase k (map_put buy k v xs) = xs"
proof (induction xs)
  case Nil
  then show ?case by (simp add: map_erase_def)
next
  case (Cons x xs)
  obtain k' v' where x: "x = (k', v')" by (cases x)
  from Cons.prems x have tl: "sorted_wrt (before buy) (map fst xs)"
    and ne: "k \<noteq> k'" and m: "map_of xs k = None" by (auto split: if_splits)
  have all: "\<forall>y\<in>set xs. fst y \<noteq> k" using m by (auto simp: map_of_eq_None_iff)
  have id: "filter (\<lambda>x. fst x \<noteq> k) xs = xs" using all by simp
  show ?case
  proof (cases "before buy k k'")
    case True
    with ne x id show ?thesis by (simp add: map_erase_def)
  next
    case False
    with ne x Cons.IH [OF tl m] show ?thesis by (simp add: map_erase_def)
  qed
qed

lemma hd_sorted_bids_Max:
  assumes "sorted_wrt (before True) (map fst xs)" "xs \<noteq> []"
  shows "fst (hd xs) = Max (fst ` set xs)"
proof -
  obtain x ys where xs: "xs = x # ys" using assms(2) by (cases xs) auto
  with assms(1) have "\<forall>y\<in>set ys. fst y < fst x" by (auto simp: before_def)
  then have "\<forall>k\<in>fst ` set xs. k \<le> fst x" using xs by auto
  moreover have "fst x \<in> fst ` set xs" using xs by simp
  ultimately have "Max (fst ` set xs) = fst x" by (intro Max_eqI) auto
  with xs show ?thesis by simp
qed

lemma hd_sorted_asks_Min:
  assumes "sorted_wrt (before False) (map fst xs)" "xs \<noteq> []"
  shows "fst (hd xs) = Min (fst ` set xs)"
proof -
  obtain x ys where xs: "xs = x # ys" using assms(2) by (cases xs) auto
  with assms(1) have "\<forall>y\<in>set ys. fst x < fst y" by (auto simp: before_def)
  then have "\<forall>k\<in>fst ` set xs. fst x \<le> k" using xs by auto
  moreover have "fst x \<in> fst ` set xs" using xs by simp
  ultimately have "Min (fst ` set xs) = fst x" by (intro Min_eqI) auto
  with xs show ?thesis by simp
qed

section \<open>Levels of one side\<close>

lemma level_ok_frame:
  assumes "level_ok st buy x" and "\<forall>a\<in>set (pl_orders (snd x)). st' a = st a"
  shows "level_ok st' buy x"
proof -
  have "map (\<lambda>a. quantity (st' a)) (pl_orders (snd x)) = map (\<lambda>a. quantity (st a)) (pl_orders (snd x))"
    using assms(2) by (intro map_cong) auto
  then have "sum_list (map (\<lambda>a. quantity (st' a)) (pl_orders (snd x))) =
             sum_list (map (\<lambda>a. quantity (st a)) (pl_orders (snd x)))" by (rule arg_cong)
  moreover have "\<forall>a\<in>set (pl_orders (snd x)). price (st' a) = fst x \<and> is_buy (side (st' a)) = buy"
    using assms by (simp add: level_ok_def)
  ultimately show ?thesis using assms(1) unfolding level_ok_def by simp
qed

lemma side_ok_frame:
  assumes "side_ok st buy xs" and "\<forall>a\<in>side_addrs xs. st' a = st a"
  shows "side_ok st' buy xs"
  unfolding side_ok_def
proof (intro conjI ballI)
  show "sorted_wrt (before buy) (map fst xs)" using assms(1) by (simp add: side_ok_def)
next
  fix x assume x: "x \<in> set xs"
  with assms(1) have "level_ok st buy x" by (simp add: side_ok_def)
  moreover have "\<forall>a\<in>set (pl_orders (snd x)). st' a = st a"
    using assms(2) x by (auto simp: side_addrs_def)
  ultimately show "level_ok st' buy x" by (rule level_ok_frame)
qed

lemma side_ok_sorted: "side_ok st buy xs \<Longrightarrow> sorted_wrt (before buy) (map fst xs)"
  by (simp add: side_ok_def)

lemma side_ok_level:
  "side_ok st buy xs \<Longrightarrow> map_of xs k = Some lv \<Longrightarrow> level_ok st buy (k, lv)"
  using map_of_SomeD [of xs k lv] by (auto simp: side_ok_def)

lemma side_addrs_level:
  assumes "side_ok st buy xs" "a \<in> side_addrs xs"
  shows "\<exists>lv. map_of xs (price (st a)) = Some lv \<and> a \<in> set (pl_orders lv) \<and>
           is_buy (side (st a)) = buy"
proof -
  from assms(2) obtain k lv where x: "(k, lv) \<in> set xs" "a \<in> set (pl_orders lv)"
    by (auto simp: side_addrs_def)
  with assms(1) have "level_ok st buy (k, lv)" by (auto simp: side_ok_def)
  with x(2) have "price (st a) = k" "is_buy (side (st a)) = buy" by (auto simp: level_ok_def)
  moreover from x(1) have "map_of xs k = Some lv"
    using map_of_sorted_iff [OF side_ok_sorted [OF assms(1)]] by simp
  ultimately show ?thesis using x(2) by auto
qed

lemma level_in_side_addrs:
  "map_of xs k = Some lv \<Longrightarrow> a \<in> set (pl_orders lv) \<Longrightarrow> a \<in> side_addrs xs"
  using map_of_SomeD [of xs k lv] by (force simp: side_addrs_def)

lemma side_addrs_split:
  assumes "sorted_wrt (before buy) (map fst xs)"
  shows "side_addrs xs =
           (case map_of xs k of None \<Rightarrow> {} | Some lv \<Rightarrow> set (pl_orders lv)) \<union>
           (\<Union>x\<in>{x \<in> set xs. fst x \<noteq> k}. set (pl_orders (snd x)))"
proof (cases "map_of xs k")
  case None
  then have "\<forall>x\<in>set xs. fst x \<noteq> k" by (auto simp: map_of_eq_None_iff)
  then have "{x \<in> set xs. fst x \<noteq> k} = set xs" by auto
  with None show ?thesis by (simp add: side_addrs_def)
next
  case (Some lv)
  then have in_xs: "(k, lv) \<in> set xs" by (rule map_of_SomeD)
  have uniq: "x = (k, lv)" if "x \<in> set xs" "fst x = k" for x
  proof -
    from that have "(k, snd x) \<in> set xs" by (metis prod.collapse)
    then have "map_of xs k = Some (snd x)" using map_of_sorted_iff [OF assms] by simp
    with Some that(2) show ?thesis by (metis option.inject prod.collapse)
  qed
  have eq: "set xs = insert (k, lv) {x \<in> set xs. fst x \<noteq> k}"
  proof (intro set_eqI iffI)
    fix x assume x: "x \<in> set xs"
    show "x \<in> insert (k, lv) {x \<in> set xs. fst x \<noteq> k}"
    proof (cases "fst x = k")
      case True
      with uniq [OF x] show ?thesis by simp
    next
      case False
      with x show ?thesis by simp
    qed
  next
    fix x assume "x \<in> insert (k, lv) {x \<in> set xs. fst x \<noteq> k}"
    with in_xs show "x \<in> set xs" by auto
  qed
  define R where "R = {x \<in> set xs. fst x \<noteq> k}"
  from eq have "set xs = insert (k, lv) R" by (simp only: R_def)
  then have "(\<Union>x\<in>set xs. set (pl_orders (snd x))) =
             (\<Union>x\<in>insert (k, lv) R. set (pl_orders (snd x)))" by (rule arg_cong)
  then have "side_addrs xs = set (pl_orders lv) \<union> (\<Union>x\<in>R. set (pl_orders (snd x)))"
    unfolding side_addrs_def by simp
  with Some show ?thesis by (simp add: R_def)
qed

lemma side_addrs_map_put:
  assumes "sorted_wrt (before buy) (map fst xs)"
  shows "side_addrs (map_put buy k v xs) =
           set (pl_orders v) \<union> (\<Union>x\<in>{x \<in> set xs. fst x \<noteq> k}. set (pl_orders (snd x)))"
  unfolding side_addrs_def set_map_put [OF assms] by simp

lemma side_addrs_map_erase:
  "side_addrs (map_erase k xs) = (\<Union>x\<in>{x \<in> set xs. fst x \<noteq> k}. set (pl_orders (snd x)))"
  unfolding side_addrs_def set_map_erase by simp

lemma side_ok_map_put:
  assumes "side_ok st buy xs" "level_ok st buy (k, v)"
  shows "side_ok st buy (map_put buy k v xs)"
  unfolding side_ok_def
  using assms sorted_map_put [of buy xs k v] set_map_put [of buy xs k v]
  by (auto simp: side_ok_def)

lemma side_ok_map_erase:
  assumes "side_ok st buy xs"
  shows "side_ok st buy (map_erase k xs)"
  unfolding side_ok_def
  using assms sorted_map_erase [of buy xs k] set_map_erase [of k xs]
  by (auto simp: side_ok_def)

lemma other_levels_miss:
  assumes "side_ok st buy xs" "x \<in> set xs" "fst x \<noteq> price (st a)"
  shows "a \<notin> set (pl_orders (snd x))"
proof
  assume "a \<in> set (pl_orders (snd x))"
  moreover from assms(1,2) have "level_ok st buy x" by (simp add: side_ok_def)
  ultimately have "price (st a) = fst x" by (simp add: level_ok_def)
  with assms(3) show False by simp
qed

lemma other_side_miss:
  assumes "side_ok st buy xs" "is_buy (side (st a)) \<noteq> buy"
  shows "a \<notin> side_addrs xs"
  using side_addrs_level [OF assms(1), of a] assms(2) by auto

subsection \<open>Adding an order\<close>

lemma side_add_ok:
  assumes ok: "side_ok st buy xs" and fresh: "a \<notin> side_addrs xs"
    and a: "price (st a) = p" "is_buy (side (st a)) = buy"
  shows "side_ok st buy (side_add buy p a st xs)"
    and "side_addrs (side_add buy p a st xs) = insert a (side_addrs xs)"
proof -
  let ?lv0 = "case map_of xs p of None \<Rightarrow> PriceLevel_new p | Some l \<Rightarrow> l"
  let ?lv1 = "PriceLevel_add_order ?lv0 st a"
  have sorted: "sorted_wrt (before buy) (map fst xs)" using ok by (rule side_ok_sorted)
  have lv0: "pl_price ?lv0 = p \<and> distinct (pl_orders ?lv0) \<and>
             pl_order_count ?lv0 = length (pl_orders ?lv0) \<and>
             pl_total_quantity ?lv0 = sum_list (map (\<lambda>a. quantity (st a)) (pl_orders ?lv0)) \<and>
             (\<forall>x\<in>set (pl_orders ?lv0). price (st x) = p \<and> is_buy (side (st x)) = buy) \<and>
             set (pl_orders ?lv0) = (case map_of xs p of None \<Rightarrow> {} | Some lv \<Rightarrow> set (pl_orders lv))"
  proof (cases "map_of xs p")
    case None
    then show ?thesis by (simp add: PriceLevel_new_def)
  next
    case (Some lv)
    with side_ok_level [OF ok Some] show ?thesis by (simp add: level_ok_def)
  qed
  have notin: "a \<notin> set (pl_orders ?lv0)"
  proof (cases "map_of xs p")
    case None
    then show ?thesis by (simp add: PriceLevel_new_def)
  next
    case (Some lv)
    with fresh level_in_side_addrs [OF Some, of a] show ?thesis by auto
  qed
  have lv1: "level_ok st buy (p, ?lv1)"
    unfolding level_ok_def using lv0 notin a by (simp add: PriceLevel_add_order_def)
  show "side_ok st buy (side_add buy p a st xs)"
    unfolding side_add_def Let_def using ok lv1 by (rule side_ok_map_put)
  have "side_addrs (side_add buy p a st xs) =
          insert a (set (pl_orders ?lv0)) \<union> (\<Union>x\<in>{x \<in> set xs. fst x \<noteq> p}. set (pl_orders (snd x)))"
    unfolding side_add_def Let_def side_addrs_map_put [OF sorted]
    by (simp add: PriceLevel_add_order_def)
  also have "\<dots> = insert a (side_addrs xs)"
  proof -
    from lv0 have s0: "set (pl_orders ?lv0) =
        (case map_of xs p of None \<Rightarrow> {} | Some lv \<Rightarrow> set (pl_orders lv))" by blast
    have "side_addrs xs =
        set (pl_orders ?lv0) \<union> (\<Union>x\<in>{x \<in> set xs. fst x \<noteq> p}. set (pl_orders (snd x)))"
      unfolding s0 by (rule side_addrs_split [OF sorted])
    then show ?thesis by simp
  qed
  finally show "side_addrs (side_add buy p a st xs) = insert a (side_addrs xs)" .
qed

lemma map_of_side_add:
  "map_of (side_add buy p a st xs) =
     (map_of xs)(p \<mapsto> PriceLevel_add_order
                        (case map_of xs p of None \<Rightarrow> PriceLevel_new p | Some l \<Rightarrow> l) st a)"
  by (simp add: side_add_def Let_def map_of_map_put)

subsection \<open>Removing an order\<close>

lemma sum_list_remove1_word:
  fixes f :: "nat \<Rightarrow> 'a::len word"
  shows "a \<in> set xs \<Longrightarrow> sum_list (map f (remove1 a xs)) = sum_list (map f xs) - f a"
  by (induction xs) auto

lemma remove_level_ok:
  assumes lv: "level_ok st buy (p, lv)" and a: "a \<in> set (pl_orders lv)"
    and ne: "pl_orders lv \<noteq> [a]"
  shows "level_ok st buy (p, PriceLevel_remove_order lv st a)"
    and "\<not> PriceLevel_empty (PriceLevel_remove_order lv st a)"
proof -
  from lv have d: "distinct (pl_orders lv)" and c: "pl_order_count lv = length (pl_orders lv)"
    by (simp_all add: level_ok_def)
  have len: "2 \<le> length (pl_orders lv)"
  proof (cases "pl_orders lv")
    case Nil
    with a show ?thesis by simp
  next
    case (Cons x xs)
    with ne a show ?thesis by (cases xs) auto
  qed
  have rl: "length (remove1 a (pl_orders lv)) = length (pl_orders lv) - 1"
    using a by (simp add: length_remove1)
  have dec: "dec_size_t (pl_order_count lv) = length (pl_orders lv) - 1"
    using c len by (auto simp: dec_size_t_def)
  have nonempty: "remove1 a (pl_orders lv) \<noteq> []" using rl len by auto
  have sub: "set (remove1 a (pl_orders lv)) \<subseteq> set (pl_orders lv)" by (rule set_remove1_subset)
  have 1: "pl_price (PriceLevel_remove_order lv st a) = p"
    using lv by (simp add: level_ok_def PriceLevel_remove_order_def)
  have 2: "distinct (pl_orders (PriceLevel_remove_order lv st a))"
    using d by (simp add: PriceLevel_remove_order_def)
  have 3: "pl_order_count (PriceLevel_remove_order lv st a) =
           length (pl_orders (PriceLevel_remove_order lv st a))"
    using rl dec by (simp add: PriceLevel_remove_order_def)
  have 4: "pl_total_quantity (PriceLevel_remove_order lv st a) =
           sum_list (map (\<lambda>a. quantity (st a)) (pl_orders (PriceLevel_remove_order lv st a)))"
    using lv a by (simp add: level_ok_def PriceLevel_remove_order_def sum_list_remove1_word)
  have 5: "\<forall>x\<in>set (pl_orders (PriceLevel_remove_order lv st a)).
             price (st x) = p \<and> is_buy (side (st x)) = buy"
    using lv sub by (auto simp: level_ok_def PriceLevel_remove_order_def)
  have 6: "pl_orders (PriceLevel_remove_order lv st a) \<noteq> []"
    using nonempty by (simp add: PriceLevel_remove_order_def)
  show "level_ok st buy (p, PriceLevel_remove_order lv st a)"
    unfolding level_ok_def using 1 2 3 4 5 6 by simp
  have "dec_size_t (pl_order_count lv) \<noteq> 0" using dec len by arith
  then show "\<not> PriceLevel_empty (PriceLevel_remove_order lv st a)"
    by (simp add: PriceLevel_empty_def PriceLevel_remove_order_def)
qed

lemma remove_level_empty:
  assumes lv: "level_ok st buy (p, lv)" and a: "pl_orders lv = [a]"
  shows "PriceLevel_empty (PriceLevel_remove_order lv st a)"
  using assms
  by (simp add: level_ok_def PriceLevel_empty_def PriceLevel_remove_order_def dec_size_t_def)

lemma side_remove_eq:
  assumes ok: "side_ok st buy xs" and lv: "map_of xs p = Some lv"
    and a: "a \<in> set (pl_orders lv)"
  shows "side_remove buy p a st xs =
           (if pl_orders lv = [a] then map_erase p xs
            else map_put buy p (PriceLevel_remove_order lv st a) xs)"
proof (cases "pl_orders lv = [a]")
  case True
  with remove_level_empty [OF side_ok_level [OF ok lv] True] lv show ?thesis
    by (simp add: side_remove_def Let_def)
next
  case False
  with remove_level_ok(2) [OF side_ok_level [OF ok lv] a False] lv show ?thesis
    by (simp add: side_remove_def Let_def)
qed

lemma side_remove_ok:
  assumes ok: "side_ok st buy xs" and lv: "map_of xs p = Some lv"
    and a: "a \<in> set (pl_orders lv)"
  shows "side_ok st buy (side_remove buy p a st xs)"
    and "side_addrs (side_remove buy p a st xs) = side_addrs xs - {a}"
proof -
  have sorted: "sorted_wrt (before buy) (map fst xs)" using ok by (rule side_ok_sorted)
  have lok: "level_ok st buy (p, lv)" using ok lv by (rule side_ok_level)
  then have pa: "price (st a) = p" and d: "distinct (pl_orders lv)"
    using a by (auto simp: level_ok_def)
  have others: "a \<notin> (\<Union>x\<in>{x \<in> set xs. fst x \<noteq> p}. set (pl_orders (snd x)))"
    using other_levels_miss [OF ok, of _ a] pa by auto
  have split: "side_addrs xs =
      set (pl_orders lv) \<union> (\<Union>x\<in>{x \<in> set xs. fst x \<noteq> p}. set (pl_orders (snd x)))"
    using side_addrs_split [OF sorted, of p] lv by simp
  show "side_ok st buy (side_remove buy p a st xs)"
  proof (cases "pl_orders lv = [a]")
    case True
    then show ?thesis
      unfolding side_remove_eq [OF ok lv a] using side_ok_map_erase [OF ok] by simp
  next
    case False
    then show ?thesis
      unfolding side_remove_eq [OF ok lv a]
      using side_ok_map_put [OF ok remove_level_ok(1) [OF lok a False]] by simp
  qed
  show "side_addrs (side_remove buy p a st xs) = side_addrs xs - {a}"
  proof (cases "pl_orders lv = [a]")
    case True
    have "side_addrs (map_erase p xs) =
        (\<Union>x\<in>{x \<in> set xs. fst x \<noteq> p}. set (pl_orders (snd x)))"
      by (simp add: side_addrs_map_erase)
    also have "\<dots> = side_addrs xs - {a}" unfolding split using others True by auto
    finally show ?thesis unfolding side_remove_eq [OF ok lv a] using True by simp
  next
    case False
    have "set (pl_orders (PriceLevel_remove_order lv st a)) = set (pl_orders lv) - {a}"
      using d by (simp add: PriceLevel_remove_order_def)
    then have "side_addrs (map_put buy p (PriceLevel_remove_order lv st a) xs) =
        (set (pl_orders lv) - {a}) \<union> (\<Union>x\<in>{x \<in> set xs. fst x \<noteq> p}. set (pl_orders (snd x)))"
      by (simp add: side_addrs_map_put [OF sorted])
    also have "\<dots> = side_addrs xs - {a}" unfolding split using others by blast
    finally show ?thesis unfolding side_remove_eq [OF ok lv a] using False by simp
  qed
qed

subsection \<open>Reducing an order\<close>

lemma sum_list_upd_word:
  fixes f :: "nat \<Rightarrow> 'a::len word"
  shows "distinct xs \<Longrightarrow> a \<in> set xs \<Longrightarrow>
           sum_list (map (f(a := v)) xs) = sum_list (map f xs) - f a + v"
proof (induction xs)
  case Nil
  then show ?case by simp
next
  case (Cons x xs)
  show ?case
  proof (cases "x = a")
    case True
    with Cons.prems have "a \<notin> set xs" by simp
    then have "map (f(a := v)) xs = map f xs" by (intro map_cong) auto
    then have "sum_list (map (f(a := v)) xs) = sum_list (map f xs)" by (rule arg_cong)
    with True show ?thesis by (simp del: fun_upd_apply) simp
  next
    case False
    with Cons.prems have "a \<in> set xs" "distinct xs" by simp_all
    from Cons.IH [OF this(2) this(1)] False show ?thesis by simp
  qed
qed

lemma map_erase_map_put_any: "map_erase k (map_put buy k v xs) = map_erase k xs"
  by (induction xs) (auto simp: map_erase_def)

lemma reduce_level_ok:
  assumes lv: "level_ok st buy (p, lv)" and a: "a \<in> set (pl_orders lv)"
  shows "level_ok (st(a := (st a)\<lparr>quantity := quantity (st a) - delta\<rparr>)) buy
           (p, lv\<lparr>pl_total_quantity := pl_total_quantity lv - delta\<rparr>)"
proof -
  let ?st = "st(a := (st a)\<lparr>quantity := quantity (st a) - delta\<rparr>)"
  from lv have d: "distinct (pl_orders lv)"
    and t: "pl_total_quantity lv = sum_list (map (\<lambda>a. quantity (st a)) (pl_orders lv))"
    by (simp_all add: level_ok_def)
  have "(\<lambda>x. quantity (?st x)) = (\<lambda>x. quantity (st x))(a := quantity (st a) - delta)"
    by (auto simp: fun_eq_iff)
  then have "sum_list (map (\<lambda>x. quantity (?st x)) (pl_orders lv)) =
        sum_list (map (\<lambda>x. quantity (st x)) (pl_orders lv)) - quantity (st a)
          + (quantity (st a) - delta)"
    using sum_list_upd_word [OF d a, of "\<lambda>x. quantity (st x)" "quantity (st a) - delta"]
    by simp
  with t have 1: "pl_total_quantity lv - delta =
        sum_list (map (\<lambda>x. quantity (?st x)) (pl_orders lv))" by simp
  have 2: "\<forall>x\<in>set (pl_orders lv). price (?st x) = p \<and> is_buy (side (?st x)) = buy"
    using lv by (auto simp: level_ok_def)
  show ?thesis unfolding level_ok_def using lv 1 2 by (simp add: level_ok_def)
qed

lemma side_reduce_eq:
  assumes ok: "side_ok st buy xs" and lv: "map_of xs p = Some lv"
    and a: "a \<in> set (pl_orders lv)" and le: "delta \<le> quantity (st a)"
  shows "side_reduce buy p a delta st xs =
           Some (if quantity (st a) = delta
                 then side_remove buy p a (st(a := (st a)\<lparr>quantity := quantity (st a) - delta\<rparr>))
                        (map_put buy p (lv\<lparr>pl_total_quantity := pl_total_quantity lv - delta\<rparr>) xs)
                 else map_put buy p (lv\<lparr>pl_total_quantity := pl_total_quantity lv - delta\<rparr>) xs,
                 st(a := (st a)\<lparr>quantity := quantity (st a) - delta\<rparr>))"
proof -
  let ?st = "st(a := (st a)\<lparr>quantity := quantity (st a) - delta\<rparr>)"
  let ?lv1 = "lv\<lparr>pl_total_quantity := pl_total_quantity lv - delta\<rparr>"
  have zero: "quantity (?st a) = 0 \<longleftrightarrow> quantity (st a) = delta" by simp
  from side_ok_level [OF ok lv] a have cnt: "pl_order_count lv \<noteq> 0"
    by (auto simp: level_ok_def)
  show ?thesis
  proof (cases "quantity (st a) = delta")
    case True
    have "side_remove buy p a ?st (map_put buy p ?lv1 xs) =
            (let lv' = PriceLevel_remove_order ?lv1 ?st a
             in if PriceLevel_empty lv' then map_erase p xs else map_put buy p lv' xs)"
      by (simp add: side_remove_def map_of_map_put Let_def map_erase_map_put_any map_put_twice)
    with True lv le show ?thesis
      by (simp add: side_reduce_def PriceLevel_reduce_quantity_def Let_def)
  next
    case False
    have "\<not> PriceLevel_empty ?lv1" using cnt by (simp add: PriceLevel_empty_def)
    with False lv le zero show ?thesis
      by (simp add: side_reduce_def PriceLevel_reduce_quantity_def Let_def)
  qed
qed

lemma side_reduce_ok:
  assumes ok: "side_ok st buy xs" and lv: "map_of xs p = Some lv"
    and a: "a \<in> set (pl_orders lv)" and le: "delta \<le> quantity (st a)"
    and res: "side_reduce buy p a delta st xs = Some (xs', st')"
  shows "st' = st(a := (st a)\<lparr>quantity := quantity (st a) - delta\<rparr>)"
    and "side_ok st' buy xs'"
    and "side_addrs xs' = (if quantity (st a) = delta then side_addrs xs - {a} else side_addrs xs)"
proof -
  let ?st = "st(a := (st a)\<lparr>quantity := quantity (st a) - delta\<rparr>)"
  let ?lv1 = "lv\<lparr>pl_total_quantity := pl_total_quantity lv - delta\<rparr>"
  let ?xs1 = "map_put buy p ?lv1 xs"
  have sorted: "sorted_wrt (before buy) (map fst xs)" using ok by (rule side_ok_sorted)
  have lok: "level_ok st buy (p, lv)" using ok lv by (rule side_ok_level)
  then have pa: "price (st a) = p" using a by (auto simp: level_ok_def)
  from res side_reduce_eq [OF ok lv a le] have st': "st' = ?st"
    and xs': "xs' = (if quantity (st a) = delta then side_remove buy p a ?st ?xs1 else ?xs1)"
    by simp_all
  show "st' = ?st" by (rule st')
  have l1: "level_ok ?st buy (p, ?lv1)" using lok a by (rule reduce_level_ok)
  have others: "level_ok ?st buy x" if x: "x \<in> set xs" "fst x \<noteq> p" for x
  proof -
    from ok x(1) have "level_ok st buy x" by (simp add: side_ok_def)
    moreover have "a \<notin> set (pl_orders (snd x))"
      using other_levels_miss [OF ok x(1)] x(2) pa by simp
    then have "\<forall>y\<in>set (pl_orders (snd x)). ?st y = st y" by auto
    ultimately show ?thesis by (rule level_ok_frame)
  qed
  have ok1: "side_ok ?st buy ?xs1"
    unfolding side_ok_def set_map_put [OF sorted]
    using sorted_map_put [OF sorted] l1 others by auto
  have m1: "map_of ?xs1 p = Some ?lv1" by (simp add: map_of_map_put)
  have a1: "a \<in> set (pl_orders ?lv1)" using a by simp
  have addrs1: "side_addrs ?xs1 = side_addrs xs"
    using side_addrs_map_put [OF sorted, of p ?lv1] side_addrs_split [OF sorted, of p] lv
    by simp
  show "side_ok st' buy xs'"
    unfolding st' xs' using ok1 side_remove_ok(1) [OF ok1 m1 a1]
    by (cases "quantity (st a) = delta") (simp_all only: if_True if_False simp_thms)
  show "side_addrs xs' = (if quantity (st a) = delta then side_addrs xs - {a} else side_addrs xs)"
    unfolding xs' using addrs1 side_remove_ok(2) [OF ok1 m1 a1]
    by (cases "quantity (st a) = delta") (simp_all only: if_True if_False simp_thms)
qed

section \<open>The cached BBO\<close>

lemma update_best_bid_eq:
  "bbo b = bbo_of (bids b) (asks b) \<Longrightarrow>
     update_best_bid (b\<lparr>bids := xs\<rparr>) = b\<lparr>bids := xs, bbo := bbo_of xs (asks b)\<rparr>"
  by (cases xs) (simp_all add: update_best_bid_def bbo_of_def)

lemma update_best_ask_eq:
  "bbo b = bbo_of (bids b) (asks b) \<Longrightarrow>
     update_best_ask (b\<lparr>asks := xs\<rparr>) = b\<lparr>asks := xs, bbo := bbo_of (bids b) xs\<rparr>"
  by (cases xs) (simp_all add: update_best_ask_def bbo_of_def)

section \<open>The pool\<close>

lemma acquire_ok:
  assumes "pool_ok p"
  shows "pool_ok (snd (acquire p))" and "fst (acquire p) \<notin> used p"
    and "used (snd (acquire p)) = insert (fst (acquire p)) (used p)"
    and "store (snd (acquire p)) = store p"
    and "block_size (snd (acquire p)) = block_size p"
proof -
  from assms have bs: "0 < block_size p" and d: "distinct (free_list p)"
    and b: "\<forall>a\<in>set (free_list p). a < blocks p * block_size p"
    by (simp_all add: pool_ok_def)
  define p1 where "p1 = (if free_list p = [] then allocate_block p else p)"
  have acq: "acquire p = (last (free_list p1), p1\<lparr>free_list := butlast (free_list p1)\<rparr>)"
    by (simp add: acquire_def p1_def Let_def)
  have ne: "free_list p1 \<noteq> []" using bs by (auto simp: p1_def allocate_block_def)
  have d1: "distinct (free_list p1)" using d by (auto simp: p1_def allocate_block_def)
  have b1: "\<forall>a\<in>set (free_list p1). a < blocks p1 * block_size p1"
    using b by (auto simp: p1_def allocate_block_def)
  have bs1: "block_size p1 = block_size p" "store p1 = store p"
    by (auto simp: p1_def allocate_block_def)
  have u1: "used p1 = used p"
    using bs by (auto simp: p1_def allocate_block_def used_def)
  let ?a = "last (free_list p1)"
  have fl: "free_list p1 = butlast (free_list p1) @ [?a]" using ne by simp
  have a_in: "?a \<in> set (free_list p1)" using ne by simp
  have a_notin: "?a \<notin> set (butlast (free_list p1))"
    using d1 fl by (metis distinct_append disjoint_iff list.set_intros(1))
  have set_fl: "set (free_list p1) = insert ?a (set (butlast (free_list p1)))"
    using fl by (metis Un_insert_right append_Nil2 list.simps(15) set_append)
  show "pool_ok (snd (acquire p))"
    unfolding acq pool_ok_def using bs bs1 d1 b1 by (auto simp: distinct_butlast dest: in_set_butlastD)
  show "fst (acquire p) \<notin> used p"
    unfolding acq using a_in u1 by (auto simp: used_def)
  show "used (snd (acquire p)) = insert (fst (acquire p)) (used p)"
    unfolding acq u1 [symmetric] using set_fl a_notin a_in b1 by (auto simp: used_def)
  show "store (snd (acquire p)) = store p" unfolding acq using bs1 by simp
  show "block_size (snd (acquire p)) = block_size p" unfolding acq using bs1 by simp
qed

lemma release_ok:
  assumes "pool_ok p" "a \<in> used p"
  shows "pool_ok (release p a)" and "used (release p a) = used p - {a}"
  using assms by (auto simp: pool_ok_def used_def release_def)

lemma pool_ok_store: "pool_ok (p\<lparr>store := st\<rparr>) = pool_ok p"
  by (simp add: pool_ok_def)

lemma used_store: "used (p\<lparr>store := st\<rparr>) = used p"
  by (simp add: used_def)

lemma acquire_store:
  "acquire (p\<lparr>store := st\<rparr>) = (fst (acquire p), (snd (acquire p))\<lparr>store := st\<rparr>)"
  by (simp add: acquire_def allocate_block_def Let_def)

lemma acquire_release:
  assumes "pool_ok p"
  shows "acquire (release (snd (acquire p)) (fst (acquire p))) = acquire p"
proof -
  from assms have bs: "0 < block_size p" by (simp add: pool_ok_def)
  define p1 where "p1 = (if free_list p = [] then allocate_block p else p)"
  have acq: "acquire p = (last (free_list p1), p1\<lparr>free_list := butlast (free_list p1)\<rparr>)"
    by (simp add: acquire_def p1_def Let_def)
  have ne: "free_list p1 \<noteq> []" using bs by (auto simp: p1_def allocate_block_def)
  have "release (snd (acquire p)) (fst (acquire p)) = p1"
    unfolding acq using ne by (simp add: release_def)
  then show ?thesis unfolding acq using ne by (simp add: acquire_def Let_def)
qed
text \<open>
  The cached BBO in terms of the contents of the two maps: the best bid is the highest
  price with a level, the best ask the lowest.
\<close>

lemma bbo_of_bid:
  assumes "side_ok st True bs"
  shows "bid_price (bbo_of bs as) =
           (if dom (map_of bs) = {} then 0 else Max (dom (map_of bs)))"
    and "bid_quantity (bbo_of bs as) =
           (case map_of bs (bid_price (bbo_of bs as)) of None \<Rightarrow> 0
            | Some l \<Rightarrow> pl_total_quantity l)"
proof -
  show "bid_price (bbo_of bs as) =
           (if dom (map_of bs) = {} then 0 else Max (dom (map_of bs)))"
  proof (cases bs)
    case Nil
    then show ?thesis by (simp add: bbo_of_def)
  next
    case (Cons x xs)
    from assms Cons have "pl_price (snd x) = fst x" by (simp add: side_ok_def level_ok_def)
    moreover have "fst (hd bs) = Max (fst ` set bs)"
      using assms Cons by (intro hd_sorted_bids_Max) (simp_all add: side_ok_def)
    ultimately show ?thesis
      using Cons by (simp add: bbo_of_def dom_map_of_conv_image_fst)
  qed
  show "bid_quantity (bbo_of bs as) =
           (case map_of bs (bid_price (bbo_of bs as)) of None \<Rightarrow> 0
            | Some l \<Rightarrow> pl_total_quantity l)"
  proof (cases bs)
    case Nil
    then show ?thesis by (simp add: bbo_of_def)
  next
    case (Cons x xs)
    from assms Cons have "pl_price (snd x) = fst x" by (simp add: side_ok_def level_ok_def)
    then show ?thesis using Cons by (cases x) (simp add: bbo_of_def)
  qed
qed

lemma bbo_of_ask:
  assumes "side_ok st False as"
  shows "ask_price (bbo_of bs as) =
           (if dom (map_of as) = {} then Price_max else Min (dom (map_of as)))"
    and "ask_quantity (bbo_of bs as) =
           (case map_of as (ask_price (bbo_of bs as)) of None \<Rightarrow> 0
            | Some l \<Rightarrow> pl_total_quantity l)"
proof -
  show "ask_price (bbo_of bs as) =
           (if dom (map_of as) = {} then Price_max else Min (dom (map_of as)))"
  proof (cases as)
    case Nil
    then show ?thesis by (simp add: bbo_of_def)
  next
    case (Cons x xs)
    from assms Cons have "pl_price (snd x) = fst x" by (simp add: side_ok_def level_ok_def)
    moreover have "fst (hd as) = Min (fst ` set as)"
      using assms Cons by (intro hd_sorted_asks_Min) (simp_all add: side_ok_def)
    ultimately show ?thesis
      using Cons by (simp add: bbo_of_def dom_map_of_conv_image_fst)
  qed
  show "ask_quantity (bbo_of bs as) =
           (case map_of as (ask_price (bbo_of bs as)) of None \<Rightarrow> 0
            | Some l \<Rightarrow> pl_total_quantity l)"
  proof (cases as)
    case Nil
    then show ?thesis by (simp add: bbo_of_def)
  next
    case (Cons x xs)
    from assms Cons have "pl_price (snd x) = fst x" by (simp add: side_ok_def level_ok_def)
    then show ?thesis using Cons by (cases x) (simp add: bbo_of_def)
  qed
qed

lemma inv_bbo:
  assumes "OrderBook_inv b p"
  shows "bid_price (bbo b) =
           (if dom (map_of (bids b)) = {} then 0 else Max (dom (map_of (bids b))))"
    and "bid_quantity (bbo b) =
           (case map_of (bids b) (bid_price (bbo b)) of None \<Rightarrow> 0
            | Some l \<Rightarrow> pl_total_quantity l)"
    and "ask_price (bbo b) =
           (if dom (map_of (asks b)) = {} then Price_max else Min (dom (map_of (asks b))))"
    and "ask_quantity (bbo b) =
           (case map_of (asks b) (ask_price (bbo b)) of None \<Rightarrow> 0
            | Some l \<Rightarrow> pl_total_quantity l)"
proof -
  from assms have bo: "side_ok (store p) True (bids b)" and ao: "side_ok (store p) False (asks b)"
    and bb: "bbo b = bbo_of (bids b) (asks b)" by (simp_all add: OrderBook_inv_def)
  show "bid_price (bbo b) =
           (if dom (map_of (bids b)) = {} then 0 else Max (dom (map_of (bids b))))"
    unfolding bb using bo by (rule bbo_of_bid)
  show "ask_price (bbo b) =
           (if dom (map_of (asks b)) = {} then Price_max else Min (dom (map_of (asks b))))"
    unfolding bb using ao by (rule bbo_of_ask)
  show "bid_quantity (bbo b) =
           (case map_of (bids b) (bid_price (bbo b)) of None \<Rightarrow> 0
            | Some l \<Rightarrow> pl_total_quantity l)"
    unfolding bb using bo by (rule bbo_of_bid)
  show "ask_quantity (bbo b) =
           (case map_of (asks b) (ask_price (bbo b)) of None \<Rightarrow> 0
            | Some l \<Rightarrow> pl_total_quantity l)"
    unfolding bb using ao by (rule bbo_of_ask)
qed

section \<open>Operations of a book\<close>

lemma find_absent:
  "OrderBook_inv b p \<Longrightarrow> OrderMap_abs (orders b) oid = None \<Longrightarrow>
     OrderMap_find (orders b) oid = Some Null"
  using OrderMap_find_abs [of "orders b" oid] by (simp add: OrderBook_inv_def)

lemma find_present:
  assumes "OrderBook_inv b p" "OrderMap_abs (orders b) oid = Some r"
  shows "\<exists>a. r = Addr a \<and> OrderMap_find (orders b) oid = Some (Addr a) \<and>
           order_id (store p a) = oid \<and> a \<in> book_addrs b"
proof -
  from assms have "\<exists>a. r = Addr a \<and> order_id (store p a) = oid \<and> a \<in> book_addrs b"
    by (simp add: OrderBook_inv_def index_ok_def)
  moreover have "OrderMap_find (orders b) oid = Some r"
    using OrderMap_find_abs [of "orders b" oid] assms by (simp add: OrderBook_inv_def)
  ultimately show ?thesis by auto
qed

lemma book_level:
  assumes inv: "OrderBook_inv b p" and a: "a \<in> book_addrs b"
  shows "\<exists>lv. map_of (if is_buy (side (store p a)) then bids b else asks b)
                 (price (store p a)) = Some lv \<and> a \<in> set (pl_orders lv)"
    and "a \<notin> side_addrs (if is_buy (side (store p a)) then asks b else bids b)"
proof -
  from inv have bo: "side_ok (store p) True (bids b)" and ao: "side_ok (store p) False (asks b)"
    by (simp_all add: OrderBook_inv_def)
  show "\<exists>lv. map_of (if is_buy (side (store p a)) then bids b else asks b)
                 (price (store p a)) = Some lv \<and> a \<in> set (pl_orders lv)"
    using a side_addrs_level [OF bo, of a] side_addrs_level [OF ao, of a]
    by (auto simp: book_addrs_def)
  show "a \<notin> side_addrs (if is_buy (side (store p a)) then asks b else bids b)"
    using other_side_miss [OF bo, of a] other_side_miss [OF ao, of a] by auto
qed

lemma add_order_dup:
  assumes "OrderBook_inv b p" "OrderMap_abs (orders b) oid = Some r"
  shows "add_order b oid sd pr q ts p = Some (Null, b, p)"
  using find_present [OF assms] by (auto simp: add_order_def)

lemma add_order_new:
  fixes oid :: OrderId and sd :: Side and pr :: Price and q :: Quantity and ts :: Timestamp
  assumes inv: "OrderBook_inv b p" and fresh: "OrderMap_abs (orders b) oid = None"
    and acq: "acquire p = (a, pa)"
    and ord_def: "ord = \<lparr>order_id = oid, price = pr, quantity = q, original_qty = q,
                          order_locate = stock_locate b, side = sd, timestamp = ts\<rparr>"
    and p'_def: "p' = pa\<lparr>store := (store p)(a := ord)\<rparr>"
    and bs_def: "bs = (if is_buy sd then side_add True pr a (store p') (bids b) else bids b)"
    and as_def: "as = (if is_buy sd then asks b else side_add False pr a (store p') (asks b))"
  shows "\<exists>om. OrderMap_put (orders b) oid (Addr a) = Some om \<and>
           OrderMap_abs om = (if oid = 0 then OrderMap_abs (orders b)
                              else (OrderMap_abs (orders b))(oid \<mapsto> Addr a)) \<and>
           add_order b oid sd pr q ts p =
             Some (Addr a, b\<lparr>bids := bs, asks := as, orders := om, bbo := bbo_of bs as,
                              order_count := order_count b + 1\<rparr>, p') \<and>
           OrderBook_inv (b\<lparr>bids := bs, asks := as, orders := om, bbo := bbo_of bs as,
                              order_count := order_count b + 1\<rparr>) p'"
proof -
  from inv have om: "OrderMap_inv (orders b)"
    and bo: "side_ok (store p) True (bids b)" and ao: "side_ok (store p) False (asks b)"
    and ix: "index_ok b (store p)" and bb: "bbo b = bbo_of (bids b) (asks b)"
    and po: "pool_ok p" and sub: "book_addrs b \<subseteq> used p"
    by (simp_all add: OrderBook_inv_def)
  have fnd: "OrderMap_find (orders b) oid = Some Null" using inv fresh by (rule find_absent)
  from OrderMap_put_ok [OF om, of oid "Addr a"] fresh obtain om' where
    put: "OrderMap_put (orders b) oid (Addr a) = Some om'" and om': "OrderMap_inv om'"
    and abs': "OrderMap_abs om' = (if oid = 0 then OrderMap_abs (orders b)
                                   else (OrderMap_abs (orders b))(oid \<mapsto> Addr a))"
    by auto
  have st1: "store pa = store p" using acquire_ok(4) [OF po] acq by simp
  have a_new: "a \<notin> used p" using acquire_ok(2) [OF po] acq by simp
  then have a_book: "a \<notin> side_addrs (bids b)" "a \<notin> side_addrs (asks b)"
    using sub by (auto simp: book_addrs_def)
  let ?b = "b\<lparr>bids := bs, asks := as, orders := om', bbo := bbo_of bs as,
               order_count := order_count b + 1\<rparr>"
  have res: "add_order b oid sd pr q ts p = Some (Addr a, ?b, p')"
    unfolding add_order_def
    using fnd put acq st1 bb
    by (simp add: Let_def update_best_bid_eq update_best_ask_eq p'_def bs_def as_def ord_def)
  have st': "store p' = (store p)(a := \<lparr>order_id = oid, price = pr, quantity = q,
      original_qty = q, order_locate = stock_locate b, side = sd, timestamp = ts\<rparr>)"
    by (simp add: p'_def ord_def)
  have same: "\<forall>x. x \<noteq> a \<longrightarrow> store p' x = store p x" by (simp add: st')
  have bo': "side_ok (store p') True (bids b)"
    using bo by (rule side_ok_frame) (use a_book same in auto)
  have ao': "side_ok (store p') False (asks b)"
    using ao by (rule side_ok_frame) (use a_book same in auto)
  have pa: "price (store p' a) = pr" "side (store p' a) = sd" by (simp_all add: st')
  have bs_ok: "side_ok (store p') True bs"
    unfolding bs_def using bo' side_add_ok(1) [OF bo' a_book(1) pa(1)] pa(2) by simp
  have as_ok: "side_ok (store p') False as"
    unfolding as_def using ao' side_add_ok(1) [OF ao' a_book(2) pa(1)] pa(2) by simp
  have addrs: "side_addrs bs \<union> side_addrs as = insert a (book_addrs b)"
    unfolding bs_def as_def book_addrs_def
    using side_add_ok(2) [OF bo' a_book(1) pa(1)] side_add_ok(2) [OF ao' a_book(2) pa(1)] pa(2)
    by auto
  have po': "pool_ok p'"
    unfolding p'_def using acquire_ok(1) [OF po] acq by (simp add: pool_ok_store)
  have used': "used p' = insert a (used p)"
    unfolding p'_def using acquire_ok(3) [OF po] acq by (simp add: used_store)
  have ix': "index_ok ?b (store p')"
    unfolding index_ok_def
  proof (intro allI impI)
    fix k r assume kr: "OrderMap_abs (orders ?b) k = Some r"
    show "\<exists>x. r = Addr x \<and> order_id (store p' x) = k \<and> x \<in> book_addrs ?b"
    proof (cases "oid \<noteq> 0 \<and> k = oid")
      case True
      with kr abs' have "r = Addr a" by simp
      moreover have "order_id (store p' a) = k" using True by (simp add: st')
      moreover have "a \<in> book_addrs ?b" using addrs by (simp add: book_addrs_def)
      ultimately show ?thesis by blast
    next
      case False
      with kr abs' have "OrderMap_abs (orders b) k = Some r" by (auto split: if_splits)
      with ix obtain x where x: "r = Addr x" "order_id (store p x) = k" "x \<in> book_addrs b"
        by (auto simp: index_ok_def)
      with a_new sub have "x \<noteq> a" by auto
      with x same have "order_id (store p' x) = k" by simp
      moreover have "x \<in> book_addrs ?b" using addrs x(3) by (simp add: book_addrs_def)
      ultimately show ?thesis using x(1) by blast
    qed
  qed
  have sub': "book_addrs ?b \<subseteq> used p'"
    using addrs used' sub by (auto simp: book_addrs_def)
  have "OrderBook_inv ?b p'"
    unfolding OrderBook_inv_def using om' bs_ok as_ok ix' po' sub' by simp
  with put abs' res show ?thesis by blast
qed
lemma inv_after_removal:
  assumes bs: "side_ok st' True bs" and as: "side_ok st' False as"
    and om: "OrderMap_inv om"
    and abs': "OrderMap_abs om = (OrderMap_abs (orders b))(oid := None)"
    and ix: "index_ok b st" and a: "order_id (st a) = oid"
    and ids: "\<forall>x. order_id (st' x) = order_id (st x)"
    and addrs: "side_addrs bs \<union> side_addrs as = book_addrs b - {a}"
    and po: "pool_ok p" and sub: "book_addrs b \<subseteq> used p" and ab: "a \<in> book_addrs b"
  shows "OrderBook_inv (b\<lparr>bids := bs, asks := as, orders := om, bbo := bbo_of bs as,
                           order_count := n\<rparr>) (release (p\<lparr>store := st'\<rparr>) a)"
proof -
  let ?b = "b\<lparr>bids := bs, asks := as, orders := om, bbo := bbo_of bs as, order_count := n\<rparr>"
  let ?p = "release (p\<lparr>store := st'\<rparr>) a"
  have st: "store ?p = st'" by (simp add: release_def)
  have au: "a \<in> used (p\<lparr>store := st'\<rparr>)" using ab sub by (auto simp: used_store)
  have po1: "pool_ok (p\<lparr>store := st'\<rparr>)" using po by (simp add: pool_ok_store)
  have po': "pool_ok ?p" using po1 au by (rule release_ok)
  have used': "used ?p = used p - {a}" using release_ok(2) [OF po1 au] by (simp add: used_store)
  have ba: "book_addrs ?b = book_addrs b - {a}" using addrs by (simp add: book_addrs_def)
  have ix': "index_ok ?b st'"
    unfolding index_ok_def
  proof (intro allI impI)
    fix k r assume "OrderMap_abs (orders ?b) k = Some r"
    with abs' have k: "k \<noteq> oid" and "OrderMap_abs (orders b) k = Some r"
      by (auto split: if_splits)
    with ix obtain x where x: "r = Addr x" "order_id (st x) = k" "x \<in> book_addrs b"
      by (auto simp: index_ok_def)
    with k a have "x \<noteq> a" by auto
    with x ba ids have "r = Addr x \<and> order_id (st' x) = k \<and> x \<in> book_addrs ?b" by simp
    then show "\<exists>x. r = Addr x \<and> order_id (st' x) = k \<and> x \<in> book_addrs ?b" ..
  qed
  have sub': "book_addrs ?b \<subseteq> used ?p" using ba used' sub by auto
  show ?thesis
    unfolding OrderBook_inv_def st using om bs as ix' po' sub' by simp
qed

lemma delete_order_absent:
  "OrderBook_inv b p \<Longrightarrow> OrderMap_abs (orders b) oid = None \<Longrightarrow>
     delete_order b oid p = Some (False, b, p)"
  using find_absent [of b p oid] by (simp add: delete_order_def)

lemma delete_order_present:
  assumes inv: "OrderBook_inv b p" and found: "OrderMap_abs (orders b) oid = Some (Addr a)"
    and buy_def: "buy = is_buy (side (store p a))"
    and pr_def: "pr = price (store p a)"
    and bs_def: "bs = (if buy then side_remove True pr a (store p) (bids b) else bids b)"
    and as_def: "as = (if buy then asks b else side_remove False pr a (store p) (asks b))"
  shows "\<exists>om. OrderMap_remove (orders b) oid = Some om \<and>
           OrderMap_abs om = (OrderMap_abs (orders b))(oid := None) \<and>
           delete_order b oid p =
             Some (True, b\<lparr>bids := bs, asks := as, orders := om, bbo := bbo_of bs as,
                            order_count := dec_size_t (order_count b)\<rparr>, release p a) \<and>
           OrderBook_inv (b\<lparr>bids := bs, asks := as, orders := om, bbo := bbo_of bs as,
                            order_count := dec_size_t (order_count b)\<rparr>) (release p a)"
proof -
  from inv have om: "OrderMap_inv (orders b)"
    and bo: "side_ok (store p) True (bids b)" and ao: "side_ok (store p) False (asks b)"
    and ix: "index_ok b (store p)" and bb: "bbo b = bbo_of (bids b) (asks b)"
    and po: "pool_ok p" and sub: "book_addrs b \<subseteq> used p"
    by (simp_all add: OrderBook_inv_def)
  from find_present [OF inv found]
  have fnd: "OrderMap_find (orders b) oid = Some (Addr a)"
    and ida: "order_id (store p a) = oid" and ab: "a \<in> book_addrs b" by auto
  from OrderMap_remove_ok [OF om, of oid] obtain om' where
    rem: "OrderMap_remove (orders b) oid = Some om'" and om': "OrderMap_inv om'"
    and abs': "OrderMap_abs om' = (OrderMap_abs (orders b))(oid := None)" by auto
  let ?b = "b\<lparr>bids := bs, asks := as, orders := om', bbo := bbo_of bs as,
               order_count := dec_size_t (order_count b)\<rparr>"
  have res: "delete_order b oid p = Some (True, ?b, release p a)"
    unfolding delete_order_def
    using fnd rem bb
    by (simp add: Let_def update_best_bid_eq update_best_ask_eq bs_def as_def buy_def pr_def)
  from book_level [OF inv ab] obtain lv where
    lv: "map_of (if buy then bids b else asks b) pr = Some lv" "a \<in> set (pl_orders lv)"
    and other: "a \<notin> side_addrs (if buy then asks b else bids b)"
    unfolding buy_def pr_def by auto
  have bs_ok: "side_ok (store p) True bs"
    unfolding bs_def using bo lv side_remove_ok(1) [OF bo, of pr lv a]
    by (cases buy) simp_all
  have as_ok: "side_ok (store p) False as"
    unfolding as_def using ao lv side_remove_ok(1) [OF ao, of pr lv a]
    by (cases buy) simp_all
  have addrs: "side_addrs bs \<union> side_addrs as = book_addrs b - {a}"
  proof (cases buy)
    case True
    with lv other side_remove_ok(2) [OF bo, of pr lv a] show ?thesis
      by (auto simp: bs_def as_def book_addrs_def)
  next
    case False
    with lv other side_remove_ok(2) [OF ao, of pr lv a] show ?thesis
      by (auto simp: bs_def as_def book_addrs_def)
  qed
  have "OrderBook_inv ?b (release (p\<lparr>store := store p\<rparr>) a)"
    using bs_ok as_ok om' abs' ix ida _ addrs po sub ab by (rule inv_after_removal) simp
  then have "OrderBook_inv ?b (release p a)" by simp
  with rem abs' res show ?thesis by blast
qed

lemma execute_order_absent:
  "OrderBook_inv b p \<Longrightarrow> OrderMap_abs (orders b) oid = None \<Longrightarrow>
     execute_order b oid qty p = Some (0, b, p)"
  using find_absent [of b p oid] by (simp add: execute_order_def)

lemma execute_order_present:
  fixes qty :: Quantity
  assumes inv: "OrderBook_inv b p" and found: "OrderMap_abs (orders b) oid = Some (Addr a)"
    and ex_def: "ex = min qty (quantity (store p a))"
    and buy_def: "buy = is_buy (side (store p a))"
    and pr_def: "pr = price (store p a)"
    and st'_def: "st' = (store p)(a := (store p a)\<lparr>quantity := quantity (store p a) - ex\<rparr>)"
    and gone_def: "gone = (quantity (store p a) = ex)"
    and xs_def: "xs = (if buy then bids b else asks b)"
    and lvl: "map_of xs pr = Some lv"
    and lv1_def: "lv1 = lv\<lparr>pl_total_quantity := pl_total_quantity lv - ex\<rparr>"
    and xs'_def: "xs' = (if gone then side_remove buy pr a st' (map_put buy pr lv1 xs)
                         else map_put buy pr lv1 xs)"
    and bs_def: "bs = (if buy then xs' else bids b)"
    and as_def: "as = (if buy then asks b else xs')"
  shows "\<exists>om. OrderMap_remove (orders b) oid = Some om \<and>
           OrderMap_abs om = (OrderMap_abs (orders b))(oid := None) \<and>
           execute_order b oid qty p =
             Some (ex,
                   b\<lparr>bids := bs, asks := as, orders := (if gone then om else orders b),
                      bbo := bbo_of bs as,
                      order_count := (if gone then dec_size_t (order_count b) else order_count b)\<rparr>,
                   if gone then release (p\<lparr>store := st'\<rparr>) a else p\<lparr>store := st'\<rparr>) \<and>
           OrderBook_inv
             (b\<lparr>bids := bs, asks := as, orders := (if gone then om else orders b),
                 bbo := bbo_of bs as,
                 order_count := (if gone then dec_size_t (order_count b) else order_count b)\<rparr>)
             (if gone then release (p\<lparr>store := st'\<rparr>) a else p\<lparr>store := st'\<rparr>)"
proof -
  from inv have om: "OrderMap_inv (orders b)"
    and bo: "side_ok (store p) True (bids b)" and ao: "side_ok (store p) False (asks b)"
    and ix: "index_ok b (store p)" and bb: "bbo b = bbo_of (bids b) (asks b)"
    and po: "pool_ok p" and sub: "book_addrs b \<subseteq> used p"
    by (simp_all add: OrderBook_inv_def)
  from find_present [OF inv found]
  have fnd: "OrderMap_find (orders b) oid = Some (Addr a)"
    and ida: "order_id (store p a) = oid" and ab: "a \<in> book_addrs b" by auto
  from OrderMap_remove_ok [OF om, of oid] obtain om' where
    rem: "OrderMap_remove (orders b) oid = Some om'" and om': "OrderMap_inv om'"
    and abs': "OrderMap_abs om' = (OrderMap_abs (orders b))(oid := None)" by auto
  from book_level [OF inv ab] obtain lv0 where
    lv0: "map_of xs pr = Some lv0" "a \<in> set (pl_orders lv0)"
    and other: "a \<notin> side_addrs (if buy then asks b else bids b)"
    unfolding buy_def pr_def xs_def by auto
  have lv: "map_of xs pr = Some lv" "a \<in> set (pl_orders lv)" using lv0 lvl by simp_all
  have xs_ok: "side_ok (store p) buy xs" using bo ao by (simp add: xs_def)
  have le: "ex \<le> quantity (store p a)" by (simp add: ex_def)
  have red: "side_reduce buy pr a ex (store p) xs = Some (xs', st')"
    using side_reduce_eq [OF xs_ok lv le] lv(1)
    by (simp add: xs'_def st'_def lv1_def gone_def)
  have zero: "quantity (st' a) = 0 \<longleftrightarrow> gone" by (simp add: st'_def gone_def)
  let ?b = "b\<lparr>bids := bs, asks := as, orders := (if gone then om' else orders b),
               bbo := bbo_of bs as,
               order_count := (if gone then dec_size_t (order_count b) else order_count b)\<rparr>"
  let ?p = "if gone then release (p\<lparr>store := st'\<rparr>) a else p\<lparr>store := st'\<rparr>"
  have res: "execute_order b oid qty p = Some (ex, ?b, ?p)"
  proof (cases buy)
    case True
    with red have "side_reduce True (price (store p a)) a (min qty (quantity (store p a)))
        (store p) (bids b) = Some (xs', st')"
      by (simp add: xs_def pr_def ex_def)
    with True fnd rem bb zero show ?thesis
      unfolding execute_order_def
      by (simp add: Let_def update_best_bid_eq bs_def as_def buy_def [symmetric] ex_def)
  next
    case False
    with red have "side_reduce False (price (store p a)) a (min qty (quantity (store p a)))
        (store p) (asks b) = Some (xs', st')"
      by (simp add: xs_def pr_def ex_def)
    with False fnd rem bb zero show ?thesis
      unfolding execute_order_def
      by (simp add: Let_def update_best_ask_eq bs_def as_def buy_def [symmetric] ex_def)
  qed
  have st'_eq: "st' = (store p)(a := (store p a)\<lparr>quantity := quantity (store p a) - ex\<rparr>)"
    by (simp add: st'_def)
  have xs'_ok: "side_ok st' buy xs'"
    using side_reduce_ok(2) [OF xs_ok lv le red] .
  have xs'_addrs: "side_addrs xs' = (if gone then side_addrs xs - {a} else side_addrs xs)"
    using side_reduce_ok(3) [OF xs_ok lv le red] by (simp add: gone_def)
  have same: "\<forall>x. x \<noteq> a \<longrightarrow> st' x = store p x" by (simp add: st'_def)
  have ys_ok: "side_ok st' (\<not> buy) (if buy then asks b else bids b)"
  proof (cases buy)
    case True
    have "side_ok st' False (asks b)"
      using ao by (rule side_ok_frame) (use other True same in auto)
    with True show ?thesis by simp
  next
    case False
    have "side_ok st' True (bids b)"
      using bo by (rule side_ok_frame) (use other False same in auto)
    with False show ?thesis by simp
  qed
  have bs_ok: "side_ok st' True bs" using xs'_ok ys_ok by (cases buy) (simp_all add: bs_def)
  have as_ok: "side_ok st' False as" using xs'_ok ys_ok by (cases buy) (simp_all add: as_def)
  have ids: "\<forall>x. order_id (st' x) = order_id (store p x)" by (simp add: st'_def)
  have inv': "OrderBook_inv ?b ?p"
  proof (cases gone)
    case True
    have addrs: "side_addrs bs \<union> side_addrs as = book_addrs b - {a}"
      using xs'_addrs True other
      by (cases buy) (auto simp: bs_def as_def xs_def book_addrs_def)
    have "OrderBook_inv (b\<lparr>bids := bs, asks := as, orders := om', bbo := bbo_of bs as,
             order_count := dec_size_t (order_count b)\<rparr>) (release (p\<lparr>store := st'\<rparr>) a)"
      using bs_ok as_ok om' abs' ix ida ids addrs po sub ab by (rule inv_after_removal)
    with True show ?thesis by simp
  next
    case False
    have addrs: "side_addrs bs \<union> side_addrs as = book_addrs b"
      using xs'_addrs False
      by (cases buy) (auto simp: bs_def as_def xs_def book_addrs_def)
    have ix': "index_ok (b\<lparr>bids := bs, asks := as, bbo := bbo_of bs as\<rparr>) st'"
      using ix ids addrs by (simp add: index_ok_def book_addrs_def)
    have "OrderBook_inv (b\<lparr>bids := bs, asks := as, bbo := bbo_of bs as\<rparr>) (p\<lparr>store := st'\<rparr>)"
      unfolding OrderBook_inv_def
      using om bs_ok as_ok ix' po sub addrs
      by (simp add: pool_ok_store used_store book_addrs_def)
    with False show ?thesis by simp
  qed
  from rem abs' res inv' show ?thesis by blast
qed

lemma execute_order_present_inv:
  fixes qty :: Quantity
  assumes inv: "OrderBook_inv b p" and found: "OrderMap_abs (orders b) oid = Some (Addr a)"
  shows "\<exists>b' p'. execute_order b oid qty p = Some (min qty (quantity (store p a)), b', p') \<and>
           OrderBook_inv b' p'"
proof -
  from find_present [OF inv found] have ab: "a \<in> book_addrs b" by simp
  from book_level(1) [OF inv ab] obtain lv where
    lv: "map_of (if is_buy (side (store p a)) then bids b else asks b) (price (store p a)) =
           Some lv" by blast
  from execute_order_present [OF inv found refl refl refl refl refl refl lv refl refl refl refl,
      of qty]
  show ?thesis by blast
qed

lemma add_order_new_inv:
  assumes "OrderBook_inv b p" "OrderMap_abs (orders b) oid = None"
  shows "\<exists>a b' p'. add_order b oid sd pr q ts p = Some (Addr a, b', p') \<and> OrderBook_inv b' p'"
proof -
  obtain a pa where "acquire p = (a, pa)" by (cases "acquire p")
  from add_order_new [OF assms this refl refl refl refl, of sd pr q ts] show ?thesis by blast
qed

lemma delete_order_present_inv:
  assumes "OrderBook_inv b p" "OrderMap_abs (orders b) oid = Some (Addr a)"
  shows "\<exists>b' p'. delete_order b oid p = Some (True, b', p') \<and> OrderBook_inv b' p'"
  using delete_order_present [OF assms refl refl refl refl] by blast

section \<open>Every operation keeps the invariant\<close>

lemma abs_cases:
  assumes "OrderBook_inv b p"
  obtains "OrderMap_abs (orders b) oid = None"
  | a where "OrderMap_abs (orders b) oid = Some (Addr a)"
proof (cases "OrderMap_abs (orders b) oid")
  case None
  then show ?thesis by (rule that(1))
next
  case (Some r)
  with find_present [OF assms Some] show ?thesis using that(2) by auto
qed

lemma get_order_inv:
  "OrderBook_inv b p \<Longrightarrow>
     get_order b oid = Some (case OrderMap_abs (orders b) oid of None \<Rightarrow> Null | Some r \<Rightarrow> r)"
  unfolding get_order_def by (rule OrderMap_find_abs) (simp add: OrderBook_inv_def)

lemma get_order_Null:
  "OrderBook_inv b p \<Longrightarrow> get_order b oid = Some Null \<longleftrightarrow> OrderMap_abs (orders b) oid = None"
  by (rule abs_cases [of b p oid]) (simp_all add: get_order_inv)

lemma get_order_Addr:
  "OrderBook_inv b p \<Longrightarrow>
     get_order b oid = Some (Addr a) \<longleftrightarrow> OrderMap_abs (orders b) oid = Some (Addr a)"
  by (rule abs_cases [of b p oid]) (simp_all add: get_order_inv)

lemma OrderBook_new_inv:
  assumes "2 \<le> c" "OrderMap_new c = Some om" "0 < bs"
  shows "OrderBook_inv
           \<lparr>stock_locate = l, bids = [], asks = [], orders = om, bbo = BBO_new, order_count = 0\<rparr>
           (ObjectPool_new bs mem)"
proof -
  from OrderMap_new_ok [OF assms(1)] assms(2)
  have "OrderMap_inv om" "OrderMap_abs om = Map.empty" by auto
  moreover have "pool_ok (ObjectPool_new bs mem)"
    using assms(3) by (auto simp: pool_ok_def ObjectPool_new_def allocate_block_def)
  ultimately show ?thesis
    by (simp add: OrderBook_inv_def side_ok_def index_ok_def bbo_of_def BBO_new_def
          book_addrs_def side_addrs_def)
qed

lemma add_order_inv:
  assumes "OrderBook_inv b p" "add_order b oid sd pr q ts p = Some (r, b', p')"
  shows "OrderBook_inv b' p'"
proof (rule abs_cases [OF assms(1), of oid])
  assume "OrderMap_abs (orders b) oid = None"
  from add_order_new_inv [OF assms(1) this, of sd pr q ts] assms(2) show ?thesis by auto
next
  fix a assume "OrderMap_abs (orders b) oid = Some (Addr a)"
  from add_order_dup [OF assms(1) this, of sd pr q ts] assms show ?thesis by simp
qed

lemma execute_order_inv:
  assumes "OrderBook_inv b p" "execute_order b oid q p = Some (n, b', p')"
  shows "OrderBook_inv b' p'"
proof (rule abs_cases [OF assms(1), of oid])
  assume "OrderMap_abs (orders b) oid = None"
  from execute_order_absent [OF assms(1) this, of q] assms show ?thesis by simp
next
  fix a assume "OrderMap_abs (orders b) oid = Some (Addr a)"
  from execute_order_present_inv [OF assms(1) this, of q] assms(2) show ?thesis by auto
qed

lemma delete_order_inv:
  assumes "OrderBook_inv b p" "delete_order b oid p = Some (ok, b', p')"
  shows "OrderBook_inv b' p'"
proof (rule abs_cases [OF assms(1), of oid])
  assume "OrderMap_abs (orders b) oid = None"
  from delete_order_absent [OF assms(1) this] assms show ?thesis by simp
next
  fix a assume "OrderMap_abs (orders b) oid = Some (Addr a)"
  from delete_order_present_inv [OF assms(1) this] assms(2) show ?thesis by auto
qed

lemma delete_order_total:
  assumes "OrderBook_inv b p"
  shows "\<exists>ok b' p'. delete_order b oid p = Some (ok, b', p')"
proof (rule abs_cases [OF assms(1), of oid])
  assume "OrderMap_abs (orders b) oid = None"
  from delete_order_absent [OF assms(1) this] show ?thesis by blast
next
  fix a assume "OrderMap_abs (orders b) oid = Some (Addr a)"
  from delete_order_present_inv [OF assms(1) this] show ?thesis by blast
qed

lemma add_order_total:
  assumes "OrderBook_inv b p"
  shows "\<exists>r b' p'. add_order b oid sd pr q ts p = Some (r, b', p')"
proof (rule abs_cases [OF assms(1), of oid])
  assume "OrderMap_abs (orders b) oid = None"
  from add_order_new_inv [OF assms(1) this, of sd pr q ts] show ?thesis by blast
next
  fix a assume "OrderMap_abs (orders b) oid = Some (Addr a)"
  from add_order_dup [OF assms(1) this, of sd pr q ts] show ?thesis by blast
qed

lemma execute_order_total:
  assumes "OrderBook_inv b p"
  shows "\<exists>n b' p'. execute_order b oid q p = Some (n, b', p')"
proof (rule abs_cases [OF assms(1), of oid])
  assume "OrderMap_abs (orders b) oid = None"
  from execute_order_absent [OF assms(1) this, of q] show ?thesis by blast
next
  fix a assume "OrderMap_abs (orders b) oid = Some (Addr a)"
  from execute_order_present_inv [OF assms(1) this, of q] show ?thesis by blast
qed

lemma replace_order_absent:
  "OrderBook_inv b p \<Longrightarrow> OrderMap_abs (orders b) old_id = None \<Longrightarrow>
     replace_order b old_id new_id q pr ts p = Some (Null, b, p)"
  using find_absent [of b p old_id] by (simp add: replace_order_def)

lemma replace_order_present:
  assumes "OrderBook_inv b p" "OrderMap_abs (orders b) old_id = Some (Addr a)"
  shows "\<exists>ok b1 p1. delete_order b old_id p = Some (ok, b1, p1) \<and>
           replace_order b old_id new_id q pr ts p =
             add_order b1 new_id (side (store p a)) pr q ts p1"
proof -
  from find_present [OF assms] have "OrderMap_find (orders b) old_id = Some (Addr a)" by auto
  with delete_order_total [OF assms(1), of old_id] show ?thesis
    by (auto simp: replace_order_def Let_def)
qed

lemma replace_order_inv:
  assumes "OrderBook_inv b p" "replace_order b old_id new_id q pr ts p = Some (r, b', p')"
  shows "OrderBook_inv b' p'"
proof (rule abs_cases [OF assms(1), of old_id])
  assume "OrderMap_abs (orders b) old_id = None"
  from replace_order_absent [OF assms(1) this, of new_id q pr ts] assms show ?thesis by simp
next
  fix a assume "OrderMap_abs (orders b) old_id = Some (Addr a)"
  from replace_order_present [OF assms(1) this, of new_id q pr ts] obtain ok b1 p1
    where d: "delete_order b old_id p = Some (ok, b1, p1)"
      and r: "replace_order b old_id new_id q pr ts p =
                add_order b1 new_id (side (store p a)) pr q ts p1" by blast
  from delete_order_inv [OF assms(1) d] have "OrderBook_inv b1 p1" .
  moreover from r assms(2)
  have "add_order b1 new_id (side (store p a)) pr q ts p1 = Some (r, b', p')" by simp
  ultimately show ?thesis by (rule add_order_inv)
qed

lemma shared_pool_inv:
  assumes inv: "OrderBook_inv b p" and "pool_ok p'" "book_addrs b \<subseteq> used p'"
    and same: "\<forall>a\<in>book_addrs b. store p' a = store p a"
  shows "OrderBook_inv b p'"
proof -
  from inv have bo: "side_ok (store p) True (bids b)" and ao: "side_ok (store p) False (asks b)"
    and ix: "index_ok b (store p)" by (simp_all add: OrderBook_inv_def)
  have "side_ok (store p') True (bids b)"
    using bo by (rule side_ok_frame) (use same in \<open>simp add: book_addrs_def\<close>)
  moreover have "side_ok (store p') False (asks b)"
    using ao by (rule side_ok_frame) (use same in \<open>simp add: book_addrs_def\<close>)
  moreover have "index_ok b (store p')"
    unfolding index_ok_def
  proof (intro allI impI)
    fix k r assume "OrderMap_abs (orders b) k = Some r"
    with ix obtain a where "r = Addr a" "order_id (store p a) = k" "a \<in> book_addrs b"
      by (auto simp: index_ok_def)
    with same have "r = Addr a \<and> order_id (store p' a) = k \<and> a \<in> book_addrs b" by simp
    then show "\<exists>a. r = Addr a \<and> order_id (store p' a) = k \<and> a \<in> book_addrs b" ..
  qed
  ultimately show ?thesis using assms by (simp add: OrderBook_inv_def)
qed

lemma OrderBook_reach_inv: "OrderBook_reach b p \<Longrightarrow> OrderBook_inv b p"
proof (induction rule: OrderBook_reach.induct)
  case (reach_book c om bs l mem)
  then show ?case by (rule OrderBook_new_inv)
next
  case (reach_add b p oid sd pr q ts r b' p')
  then show ?case by (auto intro: add_order_inv)
next
  case (reach_execute b p oid q n b' p')
  then show ?case by (auto intro: execute_order_inv)
next
  case (reach_cancel b p oid q n b' p')
  then show ?case by (auto simp: cancel_order_def intro: execute_order_inv)
next
  case (reach_delete b p oid ok b' p')
  then show ?case by (auto intro: delete_order_inv)
next
  case (reach_replace b p old_id new_id q pr ts r b' p')
  then show ?case by (auto intro: replace_order_inv)
next
  case (reach_shared b p p')
  then show ?case by (auto intro: shared_pool_inv)
qed

text \<open>For the evaluation of the loops of a table on concrete slots.\<close>

lemma Suc_Suc_0: "Suc (Suc 0) = 2"
  by simp

section \<open>Executions and cancellations\<close>

lemma reduced_levels:
  fixes delta :: Quantity
  assumes lok: "level_ok st buy (pr, lv)" and a: "a \<in> set (pl_orders lv)"
    and lv: "map_of xs pr = Some lv"
  defines "st' \<equiv> st(a := (st a)\<lparr>quantity := quantity (st a) - delta\<rparr>)"
  defines "lv1 \<equiv> lv\<lparr>pl_total_quantity := pl_total_quantity lv - delta\<rparr>"
  shows "map_of (if quantity (st a) = delta
                 then side_remove buy pr a st' (map_put buy pr lv1 xs)
                 else map_put buy pr lv1 xs) =
         (map_of xs)(pr :=
            if quantity (st a) = delta \<and> pl_orders lv = [a] then None
            else Some (lv\<lparr>pl_total_quantity := pl_total_quantity lv - delta,
                          pl_orders := (if quantity (st a) = delta then remove1 a (pl_orders lv)
                                        else pl_orders lv),
                          pl_order_count := (if quantity (st a) = delta then pl_order_count lv - 1
                                             else pl_order_count lv)\<rparr>))"
proof (cases "quantity (st a) = delta")
  case False
  then show ?thesis by (simp add: map_of_map_put lv1_def)
next
  case True
  from lok a have cnt: "pl_order_count lv = length (pl_orders lv)" "pl_orders lv \<noteq> []"
    by (auto simp: level_ok_def)
  then have pos: "pl_order_count lv \<noteq> 0" by simp
  have one: "pl_order_count lv = 1 \<longleftrightarrow> pl_orders lv = [a]"
  proof
    assume "pl_order_count lv = 1"
    with cnt a show "pl_orders lv = [a]" by (cases "pl_orders lv") auto
  next
    assume "pl_orders lv = [a]"
    with cnt show "pl_order_count lv = 1" by simp
  qed
  have z: "quantity (st' a) = 0" using True by (simp add: st'_def)
  have rm: "PriceLevel_remove_order lv1 st' a =
      lv\<lparr>pl_total_quantity := pl_total_quantity lv - delta,
         pl_orders := remove1 a (pl_orders lv),
         pl_order_count := pl_order_count lv - 1\<rparr>"
    using z pos by (simp add: PriceLevel_remove_order_def lv1_def dec_size_t_def)
  have em: "PriceLevel_empty (PriceLevel_remove_order lv1 st' a) \<longleftrightarrow> pl_orders lv = [a]"
    unfolding rm using one pos by (auto simp: PriceLevel_empty_def)
  have "side_remove buy pr a st' (map_put buy pr lv1 xs) =
          (if pl_orders lv = [a] then map_erase pr (map_put buy pr lv1 xs)
           else map_put buy pr (PriceLevel_remove_order lv1 st' a) (map_put buy pr lv1 xs))"
    using em by (simp add: side_remove_def map_of_map_put Let_def)
  then show ?thesis
    using True by (simp add: rm map_of_map_put map_of_map_erase)
qed

text \<open>
  C3.  In every reachable state of a book: \<^verbatim>\<open>cancel_order\<close> is \<^verbatim>\<open>execute_order\<close>;
  \<^verbatim>\<open>execute_order(id, qty)\<close> returns 0 and leaves book and pool as they are when \<^verbatim>\<open>id\<close> is
  not in the index; when the index holds the record \<open>a\<close> for \<^verbatim>\<open>id\<close>, the call returns
  \<open>exec = min qty (quantity a)\<close>, the record keeps all its fields but the quantity, which is
  reduced by \<open>exec\<close>; the level of the record's price and side has its total reduced by
  \<open>exec\<close>, and, exactly when the record's quantity has reached 0, the record is unlinked from
  it, removed from the index and released to the pool, and the order count of the book is
  decremented; the level is erased exactly when it has no order left; all other levels, the
  other side and all other ids are unchanged; and the cached BBO is the one that
  \<^verbatim>\<open>update_best_bid\<close> (\<^verbatim>\<open>update_best_ask\<close> for a sell order) computes from the new
  levels, which is the best of the new book: the bid price is the highest price that has a
  bid level (0 if there is none), the ask price the lowest price that has an ask level
  (the maximum of \<^verbatim>\<open>Price\<close> if there is none), and each quantity is the total of the level
  at that price (0 if there is none).
\<close>

theorem execute_order_spec:
  assumes "OrderBook_reach b p"
  shows "cancel_order b oid qty p = execute_order b oid qty p \<and>
    (get_order b oid = Some Null \<longrightarrow> execute_order b oid qty p = Some (0, b, p)) \<and>
    (\<forall>a. get_order b oid = Some (Addr a) \<longrightarrow>
       (let ord = store p a; exec = min qty (quantity ord); buy = is_buy (side ord);
            gone = (quantity ord = exec)
        in \<exists>b' p' lv.
             execute_order b oid qty p = Some (exec, b', p') \<and>
             store p' = (store p)(a := ord\<lparr>quantity := quantity ord - exec\<rparr>) \<and>
             map_of (if buy then bids b else asks b) (price ord) = Some lv \<and>
             a \<in> set (pl_orders lv) \<and>
             map_of (if buy then bids b' else asks b') =
               (map_of (if buy then bids b else asks b))(price ord :=
                  if gone \<and> pl_orders lv = [a] then None
                  else Some (lv\<lparr>pl_total_quantity := pl_total_quantity lv - exec,
                                pl_orders := (if gone then remove1 a (pl_orders lv)
                                              else pl_orders lv),
                                pl_order_count := (if gone then pl_order_count lv - 1
                                                   else pl_order_count lv)\<rparr>)) \<and>
             (if buy then asks b' = asks b else bids b' = bids b) \<and>
             get_order b' oid = Some (if gone then Null else Addr a) \<and>
             (\<forall>k. k \<noteq> oid \<longrightarrow> get_order b' k = get_order b k) \<and>
             free_list p' = (if gone then free_list p @ [a] else free_list p) \<and>
             order_count b' = (if gone then dec_size_t (order_count b) else order_count b) \<and>
             bbo b' = bbo (if buy then update_best_bid (b\<lparr>bids := bids b'\<rparr>)
                           else update_best_ask (b\<lparr>asks := asks b'\<rparr>)) \<and>
             bid_price (bbo b') =
               (if dom (map_of (bids b')) = {} then 0 else Max (dom (map_of (bids b')))) \<and>
             bid_quantity (bbo b') =
               (case map_of (bids b') (bid_price (bbo b')) of None \<Rightarrow> 0
                | Some l \<Rightarrow> pl_total_quantity l) \<and>
             ask_price (bbo b') =
               (if dom (map_of (asks b')) = {} then Price_max else Min (dom (map_of (asks b')))) \<and>
             ask_quantity (bbo b') =
               (case map_of (asks b') (ask_price (bbo b')) of None \<Rightarrow> 0
                | Some l \<Rightarrow> pl_total_quantity l) \<and>
             stock_locate b' = stock_locate b))"
proof (intro conjI impI allI)
  show "cancel_order b oid qty p = execute_order b oid qty p" by (simp add: cancel_order_def)
next
  from assms have inv: "OrderBook_inv b p" by (rule OrderBook_reach_inv)
  assume "get_order b oid = Some Null"
  with inv have "OrderMap_abs (orders b) oid = None" by (simp add: get_order_Null)
  with inv show "execute_order b oid qty p = Some (0, b, p)" by (rule execute_order_absent)
next
  fix a assume g: "get_order b oid = Some (Addr a)"
  from assms have inv: "OrderBook_inv b p" by (rule OrderBook_reach_inv)
  from inv g have found: "OrderMap_abs (orders b) oid = Some (Addr a)"
    by (simp add: get_order_Addr)
  define ord where "ord = store p a"
  define exec where "exec = min qty (quantity ord)"
  define buy where "buy = is_buy (side ord)"
  define gone where "gone \<longleftrightarrow> quantity ord = exec"
  define st' where "st' = (store p)(a := ord\<lparr>quantity := quantity ord - exec\<rparr>)"
  define xs where "xs = (if buy then bids b else asks b)"
  from find_present [OF inv found] have ab: "a \<in> book_addrs b" by simp
  from book_level [OF inv ab] obtain lv where
    lv: "map_of xs (price ord) = Some lv" "a \<in> set (pl_orders lv)"
    unfolding xs_def buy_def ord_def by auto
  have xs_ok: "side_ok (store p) buy xs"
    using inv by (simp add: xs_def OrderBook_inv_def)
  have lok: "level_ok (store p) buy (price ord, lv)" using xs_ok lv(1) by (rule side_ok_level)
  define lv1 where "lv1 = lv\<lparr>pl_total_quantity := pl_total_quantity lv - exec\<rparr>"
  define xs' where "xs' = (if gone then side_remove buy (price ord) a st'
                                          (map_put buy (price ord) lv1 xs)
                           else map_put buy (price ord) lv1 xs)"
  define bs where "bs = (if buy then xs' else bids b)"
  define as where "as = (if buy then asks b else xs')"
  have st'_eq: "st' = (store p)(a := (store p a)\<lparr>quantity := quantity (store p a) - exec\<rparr>)"
    by (simp add: st'_def ord_def)
  from execute_order_present [of b p oid a exec qty buy "price ord" st' gone xs lv lv1 xs' bs as,
      OF inv found _ _ _ st'_eq _ xs_def lv(1) lv1_def xs'_def bs_def as_def]
  obtain om where
    om: "OrderMap_abs om = (OrderMap_abs (orders b))(oid := None)"
    and res: "execute_order b oid qty p =
        Some (exec,
              b\<lparr>bids := bs, asks := as, orders := (if gone then om else orders b),
                 bbo := bbo_of bs as,
                 order_count := (if gone then dec_size_t (order_count b) else order_count b)\<rparr>,
              if gone then release (p\<lparr>store := st'\<rparr>) a else p\<lparr>store := st'\<rparr>)"
    and inv': "OrderBook_inv
        (b\<lparr>bids := bs, asks := as, orders := (if gone then om else orders b),
            bbo := bbo_of bs as,
            order_count := (if gone then dec_size_t (order_count b) else order_count b)\<rparr>)
        (if gone then release (p\<lparr>store := st'\<rparr>) a else p\<lparr>store := st'\<rparr>)"
    unfolding exec_def buy_def gone_def ord_def by blast
  let ?b = "b\<lparr>bids := bs, asks := as, orders := (if gone then om else orders b),
               bbo := bbo_of bs as,
               order_count := (if gone then dec_size_t (order_count b) else order_count b)\<rparr>"
  let ?p = "if gone then release (p\<lparr>store := st'\<rparr>) a else p\<lparr>store := st'\<rparr>"
  have m: "map_of xs' =
      (map_of xs)(price ord :=
         if gone \<and> pl_orders lv = [a] then None
         else Some (lv\<lparr>pl_total_quantity := pl_total_quantity lv - exec,
                       pl_orders := (if gone then remove1 a (pl_orders lv) else pl_orders lv),
                       pl_order_count := (if gone then pl_order_count lv - 1
                                          else pl_order_count lv)\<rparr>))"
    using reduced_levels [OF lok lv(2) lv(1), of exec]
    unfolding xs'_def lv1_def st'_def gone_def ord_def by simp
  have abs': "OrderMap_abs (orders ?b) =
      (if gone then (OrderMap_abs (orders b))(oid := None) else OrderMap_abs (orders b))"
    using om by simp
  have g1: "get_order ?b oid = Some (if gone then Null else Addr a)"
    using get_order_inv [OF inv', of oid] abs' found by (simp split: if_splits)
  have g2: "get_order ?b k = get_order b k" if "k \<noteq> oid" for k
    using get_order_inv [OF inv', of k] get_order_inv [OF inv, of k] abs' that
    by (simp split: if_splits)
  have bb: "bbo b = bbo_of (bids b) (asks b)" using inv by (simp add: OrderBook_inv_def)
  have e8: "bbo ?b = bbo (if buy then update_best_bid (b\<lparr>bids := bids ?b\<rparr>)
                           else update_best_ask (b\<lparr>asks := asks ?b\<rparr>))"
    using bb by (simp add: update_best_bid_eq update_best_ask_eq bs_def as_def)
  have "execute_order b oid qty p = Some (exec, ?b, ?p) \<and>
        store ?p = (store p)(a := ord\<lparr>quantity := quantity ord - exec\<rparr>) \<and>
        map_of (if buy then bids b else asks b) (price ord) = Some lv \<and>
        a \<in> set (pl_orders lv) \<and>
        map_of (if buy then bids ?b else asks ?b) =
          (map_of (if buy then bids b else asks b))(price ord :=
             if gone \<and> pl_orders lv = [a] then None
             else Some (lv\<lparr>pl_total_quantity := pl_total_quantity lv - exec,
                           pl_orders := (if gone then remove1 a (pl_orders lv) else pl_orders lv),
                           pl_order_count := (if gone then pl_order_count lv - 1
                                              else pl_order_count lv)\<rparr>)) \<and>
        (if buy then asks ?b = asks b else bids ?b = bids b) \<and>
        get_order ?b oid = Some (if gone then Null else Addr a) \<and>
        (\<forall>k. k \<noteq> oid \<longrightarrow> get_order ?b k = get_order b k) \<and>
        free_list ?p = (if gone then free_list p @ [a] else free_list p) \<and>
        order_count ?b = (if gone then dec_size_t (order_count b) else order_count b) \<and>
        bbo ?b = bbo (if buy then update_best_bid (b\<lparr>bids := bids ?b\<rparr>)
                      else update_best_ask (b\<lparr>asks := asks ?b\<rparr>)) \<and>
        bid_price (bbo ?b) =
          (if dom (map_of (bids ?b)) = {} then 0 else Max (dom (map_of (bids ?b)))) \<and>
        bid_quantity (bbo ?b) =
          (case map_of (bids ?b) (bid_price (bbo ?b)) of None \<Rightarrow> 0
           | Some l \<Rightarrow> pl_total_quantity l) \<and>
        ask_price (bbo ?b) =
          (if dom (map_of (asks ?b)) = {} then Price_max else Min (dom (map_of (asks ?b)))) \<and>
        ask_quantity (bbo ?b) =
          (case map_of (asks ?b) (ask_price (bbo ?b)) of None \<Rightarrow> 0
           | Some l \<Rightarrow> pl_total_quantity l) \<and>
        stock_locate ?b = stock_locate b"
  proof (intro conjI)
    show "execute_order b oid qty p = Some (exec, ?b, ?p)" by (rule res)
    show "store ?p = (store p)(a := ord\<lparr>quantity := quantity ord - exec\<rparr>)"
      by (simp add: st'_def release_def)
    show "map_of (if buy then bids b else asks b) (price ord) = Some lv"
      using lv(1) by (simp add: xs_def)
    show "a \<in> set (pl_orders lv)" by (rule lv(2))
    show "map_of (if buy then bids ?b else asks ?b) =
          (map_of (if buy then bids b else asks b))(price ord :=
             if gone \<and> pl_orders lv = [a] then None
             else Some (lv\<lparr>pl_total_quantity := pl_total_quantity lv - exec,
                           pl_orders := (if gone then remove1 a (pl_orders lv) else pl_orders lv),
                           pl_order_count := (if gone then pl_order_count lv - 1
                                              else pl_order_count lv)\<rparr>))"
      using m by (cases buy) (simp_all add: bs_def as_def xs_def)
    show "if buy then asks ?b = asks b else bids ?b = bids b" by (simp add: bs_def as_def)
    show "get_order ?b oid = Some (if gone then Null else Addr a)" by (rule g1)
    show "\<forall>k. k \<noteq> oid \<longrightarrow> get_order ?b k = get_order b k" using g2 by blast
    show "free_list ?p = (if gone then free_list p @ [a] else free_list p)"
      by (simp add: release_def)
    show "order_count ?b = (if gone then dec_size_t (order_count b) else order_count b)"
      by simp
    show "bbo ?b = bbo (if buy then update_best_bid (b\<lparr>bids := bids ?b\<rparr>)
                      else update_best_ask (b\<lparr>asks := asks ?b\<rparr>))" by (rule e8)
    show "bid_price (bbo ?b) =
          (if dom (map_of (bids ?b)) = {} then 0 else Max (dom (map_of (bids ?b))))"
      by (rule inv_bbo [OF inv'])
    show "bid_quantity (bbo ?b) =
          (case map_of (bids ?b) (bid_price (bbo ?b)) of None \<Rightarrow> 0
           | Some l \<Rightarrow> pl_total_quantity l)"
      by (rule inv_bbo [OF inv'])
    show "ask_price (bbo ?b) =
          (if dom (map_of (asks ?b)) = {} then Price_max else Min (dom (map_of (asks ?b))))"
      by (rule inv_bbo [OF inv'])
    show "ask_quantity (bbo ?b) =
          (case map_of (asks ?b) (ask_price (bbo ?b)) of None \<Rightarrow> 0
           | Some l \<Rightarrow> pl_total_quantity l)"
      by (rule inv_bbo [OF inv'])
    show "stock_locate ?b = stock_locate b" by simp
  qed
  then have "\<exists>b' p' lv.
        execute_order b oid qty p = Some (exec, b', p') \<and>
        store p' = (store p)(a := ord\<lparr>quantity := quantity ord - exec\<rparr>) \<and>
        map_of (if buy then bids b else asks b) (price ord) = Some lv \<and>
        a \<in> set (pl_orders lv) \<and>
        map_of (if buy then bids b' else asks b') =
          (map_of (if buy then bids b else asks b))(price ord :=
             if gone \<and> pl_orders lv = [a] then None
             else Some (lv\<lparr>pl_total_quantity := pl_total_quantity lv - exec,
                           pl_orders := (if gone then remove1 a (pl_orders lv) else pl_orders lv),
                           pl_order_count := (if gone then pl_order_count lv - 1
                                              else pl_order_count lv)\<rparr>)) \<and>
        (if buy then asks b' = asks b else bids b' = bids b) \<and>
        get_order b' oid = Some (if gone then Null else Addr a) \<and>
        (\<forall>k. k \<noteq> oid \<longrightarrow> get_order b' k = get_order b k) \<and>
        free_list p' = (if gone then free_list p @ [a] else free_list p) \<and>
        order_count b' = (if gone then dec_size_t (order_count b) else order_count b) \<and>
        bbo b' = bbo (if buy then update_best_bid (b\<lparr>bids := bids b'\<rparr>)
                      else update_best_ask (b\<lparr>asks := asks b'\<rparr>)) \<and>
        bid_price (bbo b') =
          (if dom (map_of (bids b')) = {} then 0 else Max (dom (map_of (bids b')))) \<and>
        bid_quantity (bbo b') =
          (case map_of (bids b') (bid_price (bbo b')) of None \<Rightarrow> 0
           | Some l \<Rightarrow> pl_total_quantity l) \<and>
        ask_price (bbo b') =
          (if dom (map_of (asks b')) = {} then Price_max else Min (dom (map_of (asks b')))) \<and>
        ask_quantity (bbo b') =
          (case map_of (asks b') (ask_price (bbo b')) of None \<Rightarrow> 0
           | Some l \<Rightarrow> pl_total_quantity l) \<and>
        stock_locate b' = stock_locate b"
    by (intro exI)
  then show "let ord = store p a; exec = min qty (quantity ord); buy = is_buy (side ord);
            gone = (quantity ord = exec)
        in \<exists>b' p' lv.
             execute_order b oid qty p = Some (exec, b', p') \<and>
             store p' = (store p)(a := ord\<lparr>quantity := quantity ord - exec\<rparr>) \<and>
             map_of (if buy then bids b else asks b) (price ord) = Some lv \<and>
             a \<in> set (pl_orders lv) \<and>
             map_of (if buy then bids b' else asks b') =
               (map_of (if buy then bids b else asks b))(price ord :=
                  if gone \<and> pl_orders lv = [a] then None
                  else Some (lv\<lparr>pl_total_quantity := pl_total_quantity lv - exec,
                                pl_orders := (if gone then remove1 a (pl_orders lv)
                                              else pl_orders lv),
                                pl_order_count := (if gone then pl_order_count lv - 1
                                                   else pl_order_count lv)\<rparr>)) \<and>
             (if buy then asks b' = asks b else bids b' = bids b) \<and>
             get_order b' oid = Some (if gone then Null else Addr a) \<and>
             (\<forall>k. k \<noteq> oid \<longrightarrow> get_order b' k = get_order b k) \<and>
             free_list p' = (if gone then free_list p @ [a] else free_list p) \<and>
             order_count b' = (if gone then dec_size_t (order_count b) else order_count b) \<and>
             bbo b' = bbo (if buy then update_best_bid (b\<lparr>bids := bids b'\<rparr>)
                           else update_best_ask (b\<lparr>asks := asks b'\<rparr>)) \<and>
             bid_price (bbo b') =
               (if dom (map_of (bids b')) = {} then 0 else Max (dom (map_of (bids b')))) \<and>
             bid_quantity (bbo b') =
               (case map_of (bids b') (bid_price (bbo b')) of None \<Rightarrow> 0
                | Some l \<Rightarrow> pl_total_quantity l) \<and>
             ask_price (bbo b') =
               (if dom (map_of (asks b')) = {} then Price_max else Min (dom (map_of (asks b')))) \<and>
             ask_quantity (bbo b') =
               (case map_of (asks b') (ask_price (bbo b')) of None \<Rightarrow> 0
                | Some l \<Rightarrow> pl_total_quantity l) \<and>
             stock_locate b' = stock_locate b"
    unfolding Let_def ord_def [symmetric] exec_def [symmetric] buy_def [symmetric]
      gone_def [symmetric] .
qed
text \<open>
  A book with a table of capacity 8 and a pool of blocks of 4 records, after
  \<^verbatim>\<open>add_order(1001, Buy, 1500000, 100, 1)\<close>, \<^verbatim>\<open>add_order(2001, Sell, 1510000, 10, 2)\<close> and
  \<^verbatim>\<open>add_order(2002, Sell, 1520000, 5, 3)\<close>.  Executing 30 shares of order 1001 leaves 70
  shares in the record, in its level and in the bid quantity of the BBO.  Cancelling 50
  shares of order 2001 cancels its 10 shares: the record is removed from the index and
  released, its level is erased, and the best ask becomes 5 shares at 1520000.
\<close>

theorem execute_order_spec_witness:
  "OrderBook_reach
     \<lparr>stock_locate = 1,
            bids = [(1500000, \<lparr>pl_price = 1500000, pl_orders = [3], pl_total_quantity = 100, pl_order_count = 1\<rparr>)],
            asks = [(1510000, \<lparr>pl_price = 1510000, pl_orders = [2], pl_total_quantity = 10, pl_order_count = 1\<rparr>),
                    (1520000, \<lparr>pl_price = 1520000, pl_orders = [1], pl_total_quantity = 5, pl_order_count = 1\<rparr>)],
            orders =
              \<lparr>entries = [(0, Null), (1001, Addr 3), (2001, Addr 2), (2002, Addr 1),
                (0, Null), (0, Null), (0, Null), (0, Null)],
              capacity = 8, mask_v = 7, load = 3\<rparr>,
            bbo = \<lparr>bid_price = 1500000, ask_price = 1510000, bid_quantity = 100, ask_quantity = 10\<rparr>,
            order_count = 3\<rparr>
     \<lparr>block_size = 4, blocks = 1, free_list = [0],
            store = (\<lambda>_. \<lparr>order_id = 0, price = 0, quantity = 0, original_qty = 0, order_locate = 0,
                side = Sell, timestamp = 0\<rparr>)
              (3 := \<lparr>order_id = 1001, price = 1500000, quantity = 100, original_qty = 100, order_locate = 1,
                side = Buy, timestamp = 1\<rparr>,
               2 := \<lparr>order_id = 2001, price = 1510000, quantity = 10, original_qty = 10, order_locate = 1,
                side = Sell, timestamp = 2\<rparr>,
               1 := \<lparr>order_id = 2002, price = 1520000, quantity = 5, original_qty = 5, order_locate = 1,
                side = Sell, timestamp = 3\<rparr>)\<rparr> \<and>
   (\<exists>b' p'.
      execute_order
        \<lparr>stock_locate = 1,
               bids = [(1500000, \<lparr>pl_price = 1500000, pl_orders = [3], pl_total_quantity = 100, pl_order_count = 1\<rparr>)],
               asks = [(1510000, \<lparr>pl_price = 1510000, pl_orders = [2], pl_total_quantity = 10, pl_order_count = 1\<rparr>),
                       (1520000, \<lparr>pl_price = 1520000, pl_orders = [1], pl_total_quantity = 5, pl_order_count = 1\<rparr>)],
               orders =
                 \<lparr>entries = [(0, Null), (1001, Addr 3), (2001, Addr 2), (2002, Addr 1),
                   (0, Null), (0, Null), (0, Null), (0, Null)],
                 capacity = 8, mask_v = 7, load = 3\<rparr>,
               bbo = \<lparr>bid_price = 1500000, ask_price = 1510000, bid_quantity = 100, ask_quantity = 10\<rparr>,
               order_count = 3\<rparr> 1001 30
        \<lparr>block_size = 4, blocks = 1, free_list = [0],
               store = (\<lambda>_. \<lparr>order_id = 0, price = 0, quantity = 0, original_qty = 0, order_locate = 0,
                   side = Sell, timestamp = 0\<rparr>)
                 (3 := \<lparr>order_id = 1001, price = 1500000, quantity = 100, original_qty = 100, order_locate = 1,
                   side = Buy, timestamp = 1\<rparr>,
                  2 := \<lparr>order_id = 2001, price = 1510000, quantity = 10, original_qty = 10, order_locate = 1,
                   side = Sell, timestamp = 2\<rparr>,
                  1 := \<lparr>order_id = 2002, price = 1520000, quantity = 5, original_qty = 5, order_locate = 1,
                   side = Sell, timestamp = 3\<rparr>)\<rparr> = Some (30, b', p') \<and>
      store p' 3 =
        \<lparr>order_id = 1001, price = 1500000, quantity = 70, original_qty = 100, order_locate = 1,
                   side = Buy, timestamp = 1\<rparr> \<and>
      map_of (bids b') 1500000 = Some \<lparr>pl_price = 1500000, pl_orders = [3], pl_total_quantity = 70, pl_order_count = 1\<rparr> \<and>
      get_order b' 1001 = Some (Addr 3) \<and> free_list p' = [0] \<and> order_count b' = 3 \<and>
      bid_price (bbo b') = 1500000 \<and> bid_quantity (bbo b') = 70) \<and>
   (\<exists>b' p'.
      cancel_order
        \<lparr>stock_locate = 1,
               bids = [(1500000, \<lparr>pl_price = 1500000, pl_orders = [3], pl_total_quantity = 100, pl_order_count = 1\<rparr>)],
               asks = [(1510000, \<lparr>pl_price = 1510000, pl_orders = [2], pl_total_quantity = 10, pl_order_count = 1\<rparr>),
                       (1520000, \<lparr>pl_price = 1520000, pl_orders = [1], pl_total_quantity = 5, pl_order_count = 1\<rparr>)],
               orders =
                 \<lparr>entries = [(0, Null), (1001, Addr 3), (2001, Addr 2), (2002, Addr 1),
                   (0, Null), (0, Null), (0, Null), (0, Null)],
                 capacity = 8, mask_v = 7, load = 3\<rparr>,
               bbo = \<lparr>bid_price = 1500000, ask_price = 1510000, bid_quantity = 100, ask_quantity = 10\<rparr>,
               order_count = 3\<rparr> 2001 50
        \<lparr>block_size = 4, blocks = 1, free_list = [0],
               store = (\<lambda>_. \<lparr>order_id = 0, price = 0, quantity = 0, original_qty = 0, order_locate = 0,
                   side = Sell, timestamp = 0\<rparr>)
                 (3 := \<lparr>order_id = 1001, price = 1500000, quantity = 100, original_qty = 100, order_locate = 1,
                   side = Buy, timestamp = 1\<rparr>,
                  2 := \<lparr>order_id = 2001, price = 1510000, quantity = 10, original_qty = 10, order_locate = 1,
                   side = Sell, timestamp = 2\<rparr>,
                  1 := \<lparr>order_id = 2002, price = 1520000, quantity = 5, original_qty = 5, order_locate = 1,
                   side = Sell, timestamp = 3\<rparr>)\<rparr> = Some (10, b', p') \<and>
      store p' 2 =
        \<lparr>order_id = 2001, price = 1510000, quantity = 0, original_qty = 10, order_locate = 1,
                   side = Sell, timestamp = 2\<rparr> \<and>
      map_of (asks b') 1510000 = None \<and>
      map_of (asks b') 1520000 = Some \<lparr>pl_price = 1520000, pl_orders = [1], pl_total_quantity = 5, pl_order_count = 1\<rparr> \<and>
      get_order b' 2001 = Some Null \<and> get_order b' 2002 = Some (Addr 1) \<and>
      free_list p' = [0, 2] \<and> order_count b' = 2 \<and>
      ask_price (bbo b') = 1520000 \<and> ask_quantity (bbo b') = 5)"
proof -
  let ?mem = "(\<lambda>_. \<lparr>order_id = 0, price = 0, quantity = 0, original_qty = 0, order_locate = 0,
                         side = Sell, timestamp = 0\<rparr>)"
  let ?m0 = "\<lparr>entries = [(0, Null), (0, Null), (0, Null), (0, Null),
                        (0, Null), (0, Null), (0, Null), (0, Null)],
                      capacity = 8, mask_v = 7, load = 0\<rparr>"
  let ?m1 = "\<lparr>entries = [(0, Null), (1001, Addr 3), (0, Null), (0, Null),
                        (0, Null), (0, Null), (0, Null), (0, Null)],
                      capacity = 8, mask_v = 7, load = 1\<rparr>"
  let ?m2 = "\<lparr>entries = [(0, Null), (1001, Addr 3), (2001, Addr 2), (0, Null),
                        (0, Null), (0, Null), (0, Null), (0, Null)],
                      capacity = 8, mask_v = 7, load = 2\<rparr>"
  let ?m3 = "\<lparr>entries = [(0, Null), (1001, Addr 3), (2001, Addr 2), (2002, Addr 1),
                        (0, Null), (0, Null), (0, Null), (0, Null)],
                      capacity = 8, mask_v = 7, load = 3\<rparr>"
  let ?b0 = "\<lparr>stock_locate = 1,
                    bids = [],
                    asks = [],
                    orders =
                      \<lparr>entries = [(0, Null), (0, Null), (0, Null), (0, Null),
                        (0, Null), (0, Null), (0, Null), (0, Null)],
                      capacity = 8, mask_v = 7, load = 0\<rparr>,
                    bbo = BBO_new,
                    order_count = 0\<rparr>"
  let ?b1 = "\<lparr>stock_locate = 1,
                    bids = [(1500000, \<lparr>pl_price = 1500000, pl_orders = [3], pl_total_quantity = 100, pl_order_count = 1\<rparr>)],
                    asks = [],
                    orders =
                      \<lparr>entries = [(0, Null), (1001, Addr 3), (0, Null), (0, Null),
                        (0, Null), (0, Null), (0, Null), (0, Null)],
                      capacity = 8, mask_v = 7, load = 1\<rparr>,
                    bbo = \<lparr>bid_price = 1500000, ask_price = Price_max, bid_quantity = 100, ask_quantity = 0\<rparr>,
                    order_count = 1\<rparr>"
  let ?b2 = "\<lparr>stock_locate = 1,
                    bids = [(1500000, \<lparr>pl_price = 1500000, pl_orders = [3], pl_total_quantity = 100, pl_order_count = 1\<rparr>)],
                    asks = [(1510000, \<lparr>pl_price = 1510000, pl_orders = [2], pl_total_quantity = 10, pl_order_count = 1\<rparr>)],
                    orders =
                      \<lparr>entries = [(0, Null), (1001, Addr 3), (2001, Addr 2), (0, Null),
                        (0, Null), (0, Null), (0, Null), (0, Null)],
                      capacity = 8, mask_v = 7, load = 2\<rparr>,
                    bbo = \<lparr>bid_price = 1500000, ask_price = 1510000, bid_quantity = 100, ask_quantity = 10\<rparr>,
                    order_count = 2\<rparr>"
  let ?b3 = "\<lparr>stock_locate = 1,
                    bids = [(1500000, \<lparr>pl_price = 1500000, pl_orders = [3], pl_total_quantity = 100, pl_order_count = 1\<rparr>)],
                    asks = [(1510000, \<lparr>pl_price = 1510000, pl_orders = [2], pl_total_quantity = 10, pl_order_count = 1\<rparr>),
                            (1520000, \<lparr>pl_price = 1520000, pl_orders = [1], pl_total_quantity = 5, pl_order_count = 1\<rparr>)],
                    orders =
                      \<lparr>entries = [(0, Null), (1001, Addr 3), (2001, Addr 2), (2002, Addr 1),
                        (0, Null), (0, Null), (0, Null), (0, Null)],
                      capacity = 8, mask_v = 7, load = 3\<rparr>,
                    bbo = \<lparr>bid_price = 1500000, ask_price = 1510000, bid_quantity = 100, ask_quantity = 10\<rparr>,
                    order_count = 3\<rparr>"
  let ?p1 = "\<lparr>block_size = 4, blocks = 1, free_list = [0, 1, 2],
                    store = (\<lambda>_. \<lparr>order_id = 0, price = 0, quantity = 0, original_qty = 0, order_locate = 0,
                        side = Sell, timestamp = 0\<rparr>)
                      (3 := \<lparr>order_id = 1001, price = 1500000, quantity = 100, original_qty = 100, order_locate = 1,
                        side = Buy, timestamp = 1\<rparr>)\<rparr>"
  let ?p2 = "\<lparr>block_size = 4, blocks = 1, free_list = [0, 1],
                    store = (\<lambda>_. \<lparr>order_id = 0, price = 0, quantity = 0, original_qty = 0, order_locate = 0,
                        side = Sell, timestamp = 0\<rparr>)
                      (3 := \<lparr>order_id = 1001, price = 1500000, quantity = 100, original_qty = 100, order_locate = 1,
                        side = Buy, timestamp = 1\<rparr>,
                       2 := \<lparr>order_id = 2001, price = 1510000, quantity = 10, original_qty = 10, order_locate = 1,
                        side = Sell, timestamp = 2\<rparr>)\<rparr>"
  let ?p3 = "\<lparr>block_size = 4, blocks = 1, free_list = [0],
                    store = (\<lambda>_. \<lparr>order_id = 0, price = 0, quantity = 0, original_qty = 0, order_locate = 0,
                        side = Sell, timestamp = 0\<rparr>)
                      (3 := \<lparr>order_id = 1001, price = 1500000, quantity = 100, original_qty = 100, order_locate = 1,
                        side = Buy, timestamp = 1\<rparr>,
                       2 := \<lparr>order_id = 2001, price = 1510000, quantity = 10, original_qty = 10, order_locate = 1,
                        side = Sell, timestamp = 2\<rparr>,
                       1 := \<lparr>order_id = 2002, price = 1520000, quantity = 5, original_qty = 5, order_locate = 1,
                        side = Sell, timestamp = 3\<rparr>)\<rparr>"
  have new: "OrderMap_new 8 = Some ?m0"
    by (simp add: OrderMap_new_def OrderMap_resize_def)
      ((subst grow_cap.simps, simp)+, simp add: numeral_eq_Suc)
  have fnd0: "OrderMap_find ?m0 1001 = Some Null"
    by (simp add: OrderMap_find_def hash_def) (subst find_loop.simps, simp add: Suc_Suc_0)+
  have put0: "OrderMap_put ?m0 1001 (Addr 3) = Some ?m1"
    by (simp add: OrderMap_put_def hash_def) (subst probe_empty.simps, simp add: Suc_Suc_0)+
  have fnd1: "OrderMap_find ?m1 2001 = Some Null"
    by (simp add: OrderMap_find_def hash_def) (subst find_loop.simps, simp add: Suc_Suc_0)+
  have put1: "OrderMap_put ?m1 2001 (Addr 2) = Some ?m2"
    by (simp add: OrderMap_put_def hash_def) (subst probe_empty.simps, simp add: Suc_Suc_0)+
  have fnd2: "OrderMap_find ?m2 2002 = Some Null"
    by (simp add: OrderMap_find_def hash_def) (subst find_loop.simps, simp add: Suc_Suc_0)+
  have put2: "OrderMap_put ?m2 2002 (Addr 1) = Some ?m3"
    by (simp add: OrderMap_put_def hash_def) (subst probe_empty.simps, simp add: Suc_Suc_0)+
  have f1001: "OrderMap_find ?m3 1001 = Some (Addr 3)"
    by (simp add: OrderMap_find_def hash_def) (subst find_loop.simps, simp add: Suc_Suc_0)+
  have f2001: "OrderMap_find ?m3 2001 = Some (Addr 2)"
    by (simp add: OrderMap_find_def hash_def) (subst find_loop.simps, simp add: Suc_Suc_0)+
  have f2002: "OrderMap_find ?m3 2002 = Some (Addr 1)"
    by (simp add: OrderMap_find_def hash_def) (subst find_loop.simps, simp add: Suc_Suc_0)+
  have upt: "[0..<4] = [0, 1, 2, 3::nat]" by (simp add: upt_rec)
  have p0: "ObjectPool_new 4 ?mem =
      \<lparr>block_size = 4, blocks = 1, free_list = [0, 1, 2, 3], store = ?mem\<rparr>"
    by (simp add: ObjectPool_new_def allocate_block_def upt)
  have sides: "is_buy Buy" "\<not> is_buy Sell" by (simp_all add: is_buy_def Buy_def Sell_def)
  have r0: "OrderBook_reach ?b0 (ObjectPool_new 4 ?mem)"
    using new by (intro reach_book [of 8]) simp_all
  have add1: "add_order ?b0 1001 Buy 1500000 100 1 (ObjectPool_new 4 ?mem) =
      Some (Addr 3, ?b1, ?p1)"
    unfolding p0 add_order_def
    using fnd0 put0 sides
    by (simp add: acquire_def Let_def side_add_def PriceLevel_new_def
          PriceLevel_add_order_def update_best_bid_def BBO_new_def)
  have add2: "add_order ?b1 2001 Sell 1510000 10 2 ?p1 = Some (Addr 2, ?b2, ?p2)"
    unfolding add_order_def
    using fnd1 put1 sides
    by (simp add: acquire_def Let_def side_add_def PriceLevel_new_def
          PriceLevel_add_order_def update_best_ask_def)
  have add3: "add_order ?b2 2002 Sell 1520000 5 3 ?p2 = Some (Addr 1, ?b3, ?p3)"
    unfolding add_order_def
    using fnd2 put2 sides
    by (simp add: acquire_def Let_def side_add_def PriceLevel_new_def
          PriceLevel_add_order_def update_best_ask_def before_def)
  have r3: "OrderBook_reach ?b3 ?p3"
    using reach_add [OF reach_add [OF reach_add [OF r0 add1] add2] add3] .
  have g1: "get_order ?b3 1001 = Some (Addr 3)" using f1001 by (simp add: get_order_def)
  have g2: "get_order ?b3 2001 = Some (Addr 2)" using f2001 by (simp add: get_order_def)
  have g3: "get_order ?b3 2002 = Some (Addr 1)" using f2002 by (simp add: get_order_def)
  have first: "\<exists>b' p'.
      execute_order ?b3 1001 30 ?p3 = Some (30, b', p') \<and>
      store p' 3 =
        \<lparr>order_id = 1001, price = 1500000, quantity = 70, original_qty = 100, order_locate = 1,
                   side = Buy, timestamp = 1\<rparr> \<and>
      map_of (bids b') 1500000 = Some \<lparr>pl_price = 1500000, pl_orders = [3], pl_total_quantity = 70, pl_order_count = 1\<rparr> \<and>
      get_order b' 1001 = Some (Addr 3) \<and> free_list p' = [0] \<and> order_count b' = 3 \<and>
      bid_price (bbo b') = 1500000 \<and> bid_quantity (bbo b') = 70"
  proof -
    let ?ord = "store ?p3 3"
    let ?ex = "min 30 (quantity ?ord)"
    let ?buy = "is_buy (side ?ord)"
    let ?gone = "quantity ?ord = ?ex"
    note post = execute_order_spec [OF r3, of 1001 30, THEN conjunct2, THEN conjunct2,
        rule_format, OF g1, unfolded Let_def]
    from post obtain b' p' lv where
      ex: "execute_order ?b3 1001 30 ?p3 = Some (?ex, b', p')"
      and st: "store p' = (store ?p3)(3 := ?ord\<lparr>quantity := quantity ?ord - ?ex\<rparr>)"
      and lv: "map_of (if ?buy then bids ?b3 else asks ?b3) (price ?ord) = Some lv"
      and mp: "map_of (if ?buy then bids b' else asks b') =
                 (map_of (if ?buy then bids ?b3 else asks ?b3))(price ?ord :=
                    if ?gone \<and> pl_orders lv = [3] then None
                    else Some (lv\<lparr>pl_total_quantity := pl_total_quantity lv - ?ex,
                                  pl_orders := (if ?gone then remove1 3 (pl_orders lv)
                                                else pl_orders lv),
                                  pl_order_count := (if ?gone then pl_order_count lv - 1
                                                     else pl_order_count lv)\<rparr>))"
      and go: "get_order b' 1001 = Some (if ?gone then Null else Addr 3)"
      and fl: "free_list p' = (if ?gone then free_list ?p3 @ [3] else free_list ?p3)"
      and oc: "order_count b' = (if ?gone then dec_size_t (order_count ?b3) else order_count ?b3)"
      and bp: "bid_price (bbo b') =
                 (if dom (map_of (bids b')) = {} then 0 else Max (dom (map_of (bids b'))))"
      and bq: "bid_quantity (bbo b') =
                 (case map_of (bids b') (bid_price (bbo b')) of None \<Rightarrow> 0
                  | Some l \<Rightarrow> pl_total_quantity l)"
      by (elim exE conjE) (rule that; assumption)
    have buy: "?buy" using sides by simp
    have lv_eq: "lv = \<lparr>pl_price = 1500000, pl_orders = [3], pl_total_quantity = 100, pl_order_count = 1\<rparr>"
      using lv buy by simp
    have m: "map_of (bids b') = [1500000 \<mapsto> \<lparr>pl_price = 1500000, pl_orders = [3], pl_total_quantity = 70, pl_order_count = 1\<rparr>]"
      using mp buy unfolding lv_eq by simp
    have f1: "execute_order ?b3 1001 30 ?p3 = Some (30, b', p')" using ex by simp
    have f2: "store p' 3 =
        \<lparr>order_id = 1001, price = 1500000, quantity = 70, original_qty = 100, order_locate = 1,
                   side = Buy, timestamp = 1\<rparr>"
      unfolding st by simp
    have f3: "map_of (bids b') 1500000 = Some \<lparr>pl_price = 1500000, pl_orders = [3], pl_total_quantity = 70, pl_order_count = 1\<rparr>"
      unfolding m by simp
    have f4: "get_order b' 1001 = Some (Addr 3)" using go by simp
    have f5: "free_list p' = [0]" using fl by simp
    have f6: "order_count b' = 3" using oc by simp
    have f7: "bid_price (bbo b') = 1500000" unfolding bp m by simp
    have f8: "bid_quantity (bbo b') = 70" unfolding bq f7 m by simp
    from f1 f2 f3 f4 f5 f6 f7 f8 show ?thesis by blast
  qed
  have second: "\<exists>b' p'.
      cancel_order ?b3 2001 50 ?p3 = Some (10, b', p') \<and>
      store p' 2 =
        \<lparr>order_id = 2001, price = 1510000, quantity = 0, original_qty = 10, order_locate = 1,
                   side = Sell, timestamp = 2\<rparr> \<and>
      map_of (asks b') 1510000 = None \<and>
      map_of (asks b') 1520000 = Some \<lparr>pl_price = 1520000, pl_orders = [1], pl_total_quantity = 5, pl_order_count = 1\<rparr> \<and>
      get_order b' 2001 = Some Null \<and> get_order b' 2002 = Some (Addr 1) \<and>
      free_list p' = [0, 2] \<and> order_count b' = 2 \<and>
      ask_price (bbo b') = 1520000 \<and> ask_quantity (bbo b') = 5"
  proof -
    let ?ord = "store ?p3 2"
    let ?ex = "min 50 (quantity ?ord)"
    let ?buy = "is_buy (side ?ord)"
    let ?gone = "quantity ?ord = ?ex"
    note spec = execute_order_spec [OF r3, of 2001 50]
    from spec have c: "cancel_order ?b3 2001 50 ?p3 = execute_order ?b3 2001 50 ?p3"
      by (rule conjunct1)
    note post = spec [THEN conjunct2, THEN conjunct2, rule_format, OF g2, unfolded Let_def]
    from post obtain b' p' lv where
      ex: "execute_order ?b3 2001 50 ?p3 = Some (?ex, b', p')"
      and st: "store p' = (store ?p3)(2 := ?ord\<lparr>quantity := quantity ?ord - ?ex\<rparr>)"
      and lv: "map_of (if ?buy then bids ?b3 else asks ?b3) (price ?ord) = Some lv"
      and mp: "map_of (if ?buy then bids b' else asks b') =
                 (map_of (if ?buy then bids ?b3 else asks ?b3))(price ?ord :=
                    if ?gone \<and> pl_orders lv = [2] then None
                    else Some (lv\<lparr>pl_total_quantity := pl_total_quantity lv - ?ex,
                                  pl_orders := (if ?gone then remove1 2 (pl_orders lv)
                                                else pl_orders lv),
                                  pl_order_count := (if ?gone then pl_order_count lv - 1
                                                     else pl_order_count lv)\<rparr>))"
      and go: "get_order b' 2001 = Some (if ?gone then Null else Addr 2)"
      and others: "\<forall>k. k \<noteq> 2001 \<longrightarrow> get_order b' k = get_order ?b3 k"
      and fl: "free_list p' = (if ?gone then free_list ?p3 @ [2] else free_list ?p3)"
      and oc: "order_count b' = (if ?gone then dec_size_t (order_count ?b3) else order_count ?b3)"
      and ap: "ask_price (bbo b') =
                 (if dom (map_of (asks b')) = {} then Price_max else Min (dom (map_of (asks b'))))"
      and aq: "ask_quantity (bbo b') =
                 (case map_of (asks b') (ask_price (bbo b')) of None \<Rightarrow> 0
                  | Some l \<Rightarrow> pl_total_quantity l)"
      by (elim exE conjE) (rule that; assumption)
    have buy: "\<not> ?buy" using sides by simp
    have exq: "?ex = 10" by simp
    have lv_eq: "lv = \<lparr>pl_price = 1510000, pl_orders = [2], pl_total_quantity = 10, pl_order_count = 1\<rparr>"
      using lv buy by simp
    have m: "map_of (asks b') = [1520000 \<mapsto> \<lparr>pl_price = 1520000, pl_orders = [1], pl_total_quantity = 5, pl_order_count = 1\<rparr>]"
      using mp buy unfolding lv_eq by (simp add: fun_eq_iff)
    have f1: "cancel_order ?b3 2001 50 ?p3 = Some (10, b', p')" using c ex exq by simp
    have f2: "store p' 2 =
        \<lparr>order_id = 2001, price = 1510000, quantity = 0, original_qty = 10, order_locate = 1,
                   side = Sell, timestamp = 2\<rparr>"
      unfolding st by simp
    have f3: "map_of (asks b') 1510000 = None" unfolding m by simp
    have f4: "map_of (asks b') 1520000 = Some \<lparr>pl_price = 1520000, pl_orders = [1], pl_total_quantity = 5, pl_order_count = 1\<rparr>"
      unfolding m by simp
    have f5: "get_order b' 2001 = Some Null" using go by simp
    have f6: "get_order b' 2002 = Some (Addr 1)" using others g3 by simp
    have f7: "free_list p' = [0, 2]" using fl by simp
    have f8: "order_count b' = 2" using oc by (simp add: dec_size_t_def)
    have f9: "ask_price (bbo b') = 1520000" unfolding ap m by simp
    have f10: "ask_quantity (bbo b') = 5" unfolding aq f9 m by simp
    from f1 f2 f3 f4 f5 f6 f7 f8 f9 f10 show ?thesis by blast
  qed
  from r3 first second show ?thesis by (intro conjI)
qed

section \<open>Deleting an order and adding it again\<close>

lemma remove_add_level:
  "a \<notin> set (pl_orders lv) \<Longrightarrow>
     PriceLevel_remove_order (PriceLevel_add_order lv st a) st a = lv"
  by (simp add: PriceLevel_remove_order_def PriceLevel_add_order_def dec_size_t_def
        remove1_append)

lemma side_add_cong:
  "quantity (st a) = quantity (st' a) \<Longrightarrow> side_add buy p a st xs = side_add buy p a st' xs"
  by (simp add: side_add_def PriceLevel_add_order_def)

lemma side_remove_side_add:
  assumes ok: "side_ok st buy xs" and fresh: "a \<notin> side_addrs xs"
  shows "side_remove buy p a st (side_add buy p a st xs) = xs"
proof -
  have sorted: "sorted_wrt (before buy) (map fst xs)" using ok by (rule side_ok_sorted)
  show ?thesis
  proof (cases "map_of xs p")
    case None
    have "PriceLevel_remove_order (PriceLevel_add_order (PriceLevel_new p) st a) st a =
            PriceLevel_new p"
      by (rule remove_add_level) (simp add: PriceLevel_new_def)
    moreover have "PriceLevel_empty (PriceLevel_new p)"
      by (simp add: PriceLevel_empty_def PriceLevel_new_def)
    ultimately show ?thesis
      using None map_erase_map_put [OF sorted None]
      by (simp add: side_remove_def side_add_def map_of_map_put Let_def)
  next
    case (Some lv)
    from level_in_side_addrs [OF Some] fresh have "a \<notin> set (pl_orders lv)" by blast
    then have "PriceLevel_remove_order (PriceLevel_add_order lv st a) st a = lv"
      by (rule remove_add_level)
    moreover from side_ok_level [OF ok Some] have "\<not> PriceLevel_empty lv"
      by (auto simp: level_ok_def PriceLevel_empty_def)
    ultimately show ?thesis
      using Some map_put_same [OF sorted Some]
      by (simp add: side_remove_def side_add_def map_of_map_put Let_def map_put_twice)
  qed
qed

lemma release_store: "release (p\<lparr>store := st\<rparr>) a = (release p a)\<lparr>store := st\<rparr>"
  by (simp add: release_def)

text \<open>
  C8 (amended).  In every reachable state of a book whose index does not hold the id, for
  an id other than 0: \<^verbatim>\<open>add_order\<close>, then \<^verbatim>\<open>delete_order\<close>, then \<^verbatim>\<open>add_order\<close> with the same
  side, price and quantity all return (the id is in the index after the first, not after
  the second), and the final state has the index contents, the
  price levels with their totals and counts, the BBO and the order count of the state
  after the first \<^verbatim>\<open>add_order\<close>; the order is in the same pool record, the records differ
  only in the timestamp of this order, and the free list of the pool is the same.
\<close>

theorem delete_then_add:
  fixes oid :: OrderId and sd :: Side and pr :: Price and q :: Quantity
    and ts :: Timestamp and ts' :: Timestamp
  assumes reach: "OrderBook_reach b p" and nz: "oid \<noteq> 0"
    and absent: "get_order b oid = Some Null"
  shows "\<exists>a b1 p1 b2 p2 b3 p3.
           add_order b oid sd pr q ts p = Some (Addr a, b1, p1) \<and>
           get_order b1 oid = Some (Addr a) \<and>
           delete_order b1 oid p1 = Some (True, b2, p2) \<and>
           get_order b2 oid = Some Null \<and>
           add_order b2 oid sd pr q ts' p2 = Some (Addr a, b3, p3) \<and>
           get_order b3 = get_order b1 \<and> bids b3 = bids b1 \<and> asks b3 = asks b1 \<and>
           bbo b3 = bbo b1 \<and> order_count b3 = order_count b1 \<and>
           stock_locate b3 = stock_locate b1 \<and>
           store p3 = (store p1)(a := (store p1 a)\<lparr>timestamp := ts'\<rparr>) \<and>
           free_list p3 = free_list p1 \<and> blocks p3 = blocks p1 \<and>
           block_size p3 = block_size p1"
proof -
  from reach have inv: "OrderBook_inv b p" by (rule OrderBook_reach_inv)
  from inv absent have fresh: "OrderMap_abs (orders b) oid = None" by (simp add: get_order_Null)
  from inv have bo: "side_ok (store p) True (bids b)" and ao: "side_ok (store p) False (asks b)"
    and bb: "bbo b = bbo_of (bids b) (asks b)"
    and po: "pool_ok p" and sub: "book_addrs b \<subseteq> used p"
    by (simp_all add: OrderBook_inv_def)
  obtain a pa where acq: "acquire p = (a, pa)" by (cases "acquire p")
  define ord where "ord = \<lparr>order_id = oid, price = pr, quantity = q, original_qty = q,
      order_locate = stock_locate b, side = sd, timestamp = ts\<rparr>"
  define p1 where "p1 = pa\<lparr>store := (store p)(a := ord)\<rparr>"
  define bs1 where "bs1 = (if is_buy sd then side_add True pr a (store p1) (bids b) else bids b)"
  define as1 where "as1 = (if is_buy sd then asks b else side_add False pr a (store p1) (asks b))"
  from add_order_new [OF inv fresh acq ord_def p1_def bs1_def as1_def] nz obtain om1 where
    abs1: "OrderMap_abs om1 = (OrderMap_abs (orders b))(oid \<mapsto> Addr a)"
    and add1: "add_order b oid sd pr q ts p =
        Some (Addr a, b\<lparr>bids := bs1, asks := as1, orders := om1, bbo := bbo_of bs1 as1,
                         order_count := order_count b + 1\<rparr>, p1)"
    and inv1: "OrderBook_inv (b\<lparr>bids := bs1, asks := as1, orders := om1, bbo := bbo_of bs1 as1,
                         order_count := order_count b + 1\<rparr>) p1"
    by auto
  define b1 where "b1 = b\<lparr>bids := bs1, asks := as1, orders := om1, bbo := bbo_of bs1 as1,
                         order_count := order_count b + 1\<rparr>"
  have st1: "store p1 = (store p)(a := ord)" by (simp add: p1_def)
  have a_new: "a \<notin> used p" using acquire_ok(2) [OF po] acq by simp
  then have a_book: "a \<notin> side_addrs (bids b)" "a \<notin> side_addrs (asks b)"
    using sub by (auto simp: book_addrs_def)
  have bo1: "side_ok (store p1) True (bids b)"
    using bo by (rule side_ok_frame) (use a_book st1 in auto)
  have ao1: "side_ok (store p1) False (asks b)"
    using ao by (rule side_ok_frame) (use a_book st1 in auto)
  have found1: "OrderMap_abs (orders b1) oid = Some (Addr a)" by (simp add: b1_def abs1)
  have sd1: "side (store p1 a) = sd" "price (store p1 a) = pr" by (simp_all add: st1 ord_def)
  define bs2 where "bs2 = (if is_buy sd then side_remove True pr a (store p1) (bids b1)
                           else bids b1)"
  define as2 where "as2 = (if is_buy sd then asks b1
                           else side_remove False pr a (store p1) (asks b1))"
  have bs2': "bs2 = (if is_buy (side (store p1 a))
                     then side_remove True (price (store p1 a)) a (store p1) (bids b1) else bids b1)"
    by (simp add: bs2_def sd1)
  have as2': "as2 = (if is_buy (side (store p1 a)) then asks b1
                     else side_remove False (price (store p1 a)) a (store p1) (asks b1))"
    by (simp add: as2_def sd1)
  from delete_order_present [OF inv1 [folded b1_def] found1 refl refl bs2' as2'] obtain om2 where
    abs2: "OrderMap_abs om2 = (OrderMap_abs (orders b1))(oid := None)"
    and del: "delete_order b1 oid p1 =
        Some (True, b1\<lparr>bids := bs2, asks := as2, orders := om2, bbo := bbo_of bs2 as2,
                        order_count := dec_size_t (order_count b1)\<rparr>, release p1 a)"
    and inv2: "OrderBook_inv (b1\<lparr>bids := bs2, asks := as2, orders := om2, bbo := bbo_of bs2 as2,
                        order_count := dec_size_t (order_count b1)\<rparr>) (release p1 a)"
    by auto
  have bs2_eq: "bs2 = bids b"
    using side_remove_side_add [OF bo1 a_book(1), of pr]
    by (simp add: bs2_def b1_def bs1_def)
  have as2_eq: "as2 = asks b"
    using side_remove_side_add [OF ao1 a_book(2), of pr]
    by (simp add: as2_def b1_def as1_def)
  define b2 where "b2 = b\<lparr>orders := om2\<rparr>"
  have b2_eq: "b1\<lparr>bids := bs2, asks := as2, orders := om2, bbo := bbo_of bs2 as2,
                  order_count := dec_size_t (order_count b1)\<rparr> = b2"
    using bb by (simp add: b2_def b1_def bs2_eq as2_eq dec_size_t_def)
  define p2 where "p2 = release p1 a"
  have del': "delete_order b1 oid p1 = Some (True, b2, p2)" using del b2_eq by (simp add: p2_def)
  have inv2': "OrderBook_inv b2 p2" using inv2 b2_eq by (simp add: p2_def)
  have abs2': "OrderMap_abs om2 = OrderMap_abs (orders b)"
    using abs2 abs1 fresh by (auto simp: b1_def fun_eq_iff)
  have fresh2: "OrderMap_abs (orders b2) oid = None" using abs2' fresh by (simp add: b2_def)
  have acq2: "acquire p2 = (a, p1)"
    unfolding p2_def p1_def release_store acquire_store
    using acquire_release [OF po] acq by simp
  define ord' where "ord' = \<lparr>order_id = oid, price = pr, quantity = q, original_qty = q,
      order_locate = stock_locate b2, side = sd, timestamp = ts'\<rparr>"
  define p3 where "p3 = p1\<lparr>store := (store p2)(a := ord')\<rparr>"
  define bs3 where "bs3 = (if is_buy sd then side_add True pr a (store p3) (bids b2) else bids b2)"
  define as3 where "as3 = (if is_buy sd then asks b2 else side_add False pr a (store p3) (asks b2))"
  have st2: "store p2 = store p1" by (simp add: p2_def release_def)
  from add_order_new [OF inv2' fresh2 acq2 ord'_def p3_def bs3_def as3_def] nz obtain om3 where
    abs3: "OrderMap_abs om3 = (OrderMap_abs (orders b2))(oid \<mapsto> Addr a)"
    and add3: "add_order b2 oid sd pr q ts' p2 =
        Some (Addr a, b2\<lparr>bids := bs3, asks := as3, orders := om3, bbo := bbo_of bs3 as3,
                         order_count := order_count b2 + 1\<rparr>, p3)"
    and inv3: "OrderBook_inv (b2\<lparr>bids := bs3, asks := as3, orders := om3, bbo := bbo_of bs3 as3,
                         order_count := order_count b2 + 1\<rparr>) p3"
    by auto
  define b3 where "b3 = b2\<lparr>bids := bs3, asks := as3, orders := om3, bbo := bbo_of bs3 as3,
                         order_count := order_count b2 + 1\<rparr>"
  have q3: "quantity (store p3 a) = quantity (store p1 a)"
    by (simp add: p3_def st1 ord_def ord'_def)
  have bs3_eq: "bs3 = bs1"
    unfolding bs3_def bs1_def
    using side_add_cong [of "store p3" a "store p1" True pr "bids b", OF q3]
    by (simp add: b2_def)
  have as3_eq: "as3 = as1"
    unfolding as3_def as1_def
    using side_add_cong [of "store p3" a "store p1" False pr "asks b", OF q3]
    by (simp add: b2_def)
  have abs3': "OrderMap_abs (orders b3) = OrderMap_abs (orders b1)"
    using abs3 abs2' abs1 by (simp add: b3_def b2_def b1_def)
  have g: "get_order b3 = get_order b1"
  proof
    fix k
    show "get_order b3 k = get_order b1 k"
      using get_order_inv [OF inv3 [folded b3_def], of k]
        get_order_inv [OF inv1 [folded b1_def], of k] abs3' by simp
  qed
  have "store p3 = (store p1)(a := (store p1 a)\<lparr>timestamp := ts'\<rparr>)"
    by (simp add: p3_def st2 st1 ord_def ord'_def b2_def)
  moreover have "bids b3 = bids b1" "asks b3 = asks b1" "bbo b3 = bbo b1"
    "order_count b3 = order_count b1" "stock_locate b3 = stock_locate b1"
    by (simp_all add: b3_def b2_def b1_def bs3_eq as3_eq)
  moreover have "free_list p3 = free_list p1" "blocks p3 = blocks p1"
    "block_size p3 = block_size p1" by (simp_all add: p3_def)
  moreover have "get_order b1 oid = Some (Addr a)"
    using inv1 [folded b1_def] found1 by (simp add: get_order_Addr)
  moreover have "get_order b2 oid = Some Null"
    using inv2' fresh2 by (simp add: get_order_Null)
  ultimately show ?thesis
    using add1 [folded b1_def] del' add3 [folded b3_def] g by blast
qed
text \<open>
  An empty book with a table of capacity 4 and a pool of blocks of 4 records, and the id 7.
\<close>

theorem delete_then_add_witness:
  "OrderBook_reach
     \<lparr>stock_locate = 1,
        bids = [],
        asks = [],
        orders =
          \<lparr>entries = [(0, Null), (0, Null), (0, Null), (0, Null)],
             capacity = 4, mask_v = 3, load = 0\<rparr>,
        bbo = BBO_new,
        order_count = 0\<rparr>
     (ObjectPool_new 4
        (\<lambda>_. \<lparr>order_id = 0, price = 0, quantity = 0, original_qty = 0, order_locate = 0,
                side = Sell, timestamp = 0\<rparr>)) \<and>
   get_order
     \<lparr>stock_locate = 1,
        bids = [],
        asks = [],
        orders =
          \<lparr>entries = [(0, Null), (0, Null), (0, Null), (0, Null)],
             capacity = 4, mask_v = 3, load = 0\<rparr>,
        bbo = BBO_new,
        order_count = 0\<rparr> 7 = Some Null \<and>
   (\<exists>a b1 p1 b2 p2 b3 p3.
      add_order
        \<lparr>stock_locate = 1,
           bids = [],
           asks = [],
           orders =
             \<lparr>entries = [(0, Null), (0, Null), (0, Null), (0, Null)],
                capacity = 4, mask_v = 3, load = 0\<rparr>,
           bbo = BBO_new,
           order_count = 0\<rparr> 7 Buy 100 10 1
        (ObjectPool_new 4
           (\<lambda>_. \<lparr>order_id = 0, price = 0, quantity = 0, original_qty = 0, order_locate = 0,
                   side = Sell, timestamp = 0\<rparr>)) = Some (Addr a, b1, p1) \<and>
      get_order b1 7 = Some (Addr a) \<and>
      delete_order b1 7 p1 = Some (True, b2, p2) \<and>
      get_order b2 7 = Some Null \<and>
      add_order b2 7 Buy 100 10 2 p2 = Some (Addr a, b3, p3) \<and>
      get_order b3 = get_order b1 \<and> bids b3 = bids b1 \<and> asks b3 = asks b1 \<and>
      bbo b3 = bbo b1 \<and> order_count b3 = order_count b1 \<and>
      store p3 = (store p1)(a := (store p1 a)\<lparr>timestamp := 2\<rparr>) \<and>
      free_list p3 = free_list p1)"
proof -
  let ?m0 = "\<lparr>entries = [(0, Null), (0, Null), (0, Null), (0, Null)],
                capacity = 4, mask_v = 3, load = 0\<rparr>"
  let ?b0 = "\<lparr>stock_locate = 1,
                bids = [],
                asks = [],
                orders =
                  \<lparr>entries = [(0, Null), (0, Null), (0, Null), (0, Null)],
                     capacity = 4, mask_v = 3, load = 0\<rparr>,
                bbo = BBO_new,
                order_count = 0\<rparr>"
  let ?p0 = "ObjectPool_new 4
               (\<lambda>_. \<lparr>order_id = 0, price = 0, quantity = 0, original_qty = 0, order_locate = 0,
                       side = Sell, timestamp = 0\<rparr>)"
  have new: "OrderMap_new 4 = Some ?m0"
    by (simp add: OrderMap_new_def OrderMap_resize_def)
      ((subst grow_cap.simps, simp)+, simp add: numeral_eq_Suc)
  have fnd: "OrderMap_find ?m0 7 = Some Null"
    by (simp add: OrderMap_find_def hash_def) (subst find_loop.simps, simp add: Suc_Suc_0)+
  have r0: "OrderBook_reach ?b0 ?p0"
    using new by (intro reach_book [of 4]) simp_all
  have g0: "get_order ?b0 7 = Some Null" using fnd by (simp add: get_order_def)
  have nz: "(7::OrderId) \<noteq> 0" by simp
  from delete_then_add [OF r0 nz g0, of Buy 100 10 1 2]
  have "\<exists>a b1 p1 b2 p2 b3 p3.
      add_order ?b0 7 Buy 100 10 1 ?p0 = Some (Addr a, b1, p1) \<and>
      get_order b1 7 = Some (Addr a) \<and>
      delete_order b1 7 p1 = Some (True, b2, p2) \<and>
      get_order b2 7 = Some Null \<and>
      add_order b2 7 Buy 100 10 2 p2 = Some (Addr a, b3, p3) \<and>
      get_order b3 = get_order b1 \<and> bids b3 = bids b1 \<and> asks b3 = asks b1 \<and>
      bbo b3 = bbo b1 \<and> order_count b3 = order_count b1 \<and>
      store p3 = (store p1)(a := (store p1 a)\<lparr>timestamp := 2\<rparr>) \<and>
      free_list p3 = free_list p1"
    by blast
  with r0 g0 show ?thesis by (intro conjI)
qed

text \<open>
  C8 as stated fails for the id 0, the mark of an empty slot of the table: \<^verbatim>\<open>put(0, order)\<close>
  leaves the slot empty, so the index never holds the id 0.  On the empty book,
  \<^verbatim>\<open>add_order(0, Buy, 100, 10, 1)\<close> links a record in the level of price 100,
  \<^verbatim>\<open>delete_order(0)\<close> finds nothing and returns \<^verbatim>\<open>false\<close>, and the second \<^verbatim>\<open>add_order\<close>
  links a second record: the level then has 2 orders and 20 shares, the book 2 orders,
  where one \<^verbatim>\<open>add_order\<close> alone leaves 1 order and 10 shares.
\<close>

theorem delete_then_add_counterexample:
  "OrderBook_reach
     \<lparr>stock_locate = 1,
        bids = [],
        asks = [],
        orders =
          \<lparr>entries = [(0, Null), (0, Null), (0, Null), (0, Null)],
             capacity = 4, mask_v = 3, load = 0\<rparr>,
        bbo = BBO_new,
        order_count = 0\<rparr>
     (ObjectPool_new 4
        (\<lambda>_. \<lparr>order_id = 0, price = 0, quantity = 0, original_qty = 0, order_locate = 0,
                side = Sell, timestamp = 0\<rparr>)) \<and>
   get_order
     \<lparr>stock_locate = 1,
        bids = [],
        asks = [],
        orders =
          \<lparr>entries = [(0, Null), (0, Null), (0, Null), (0, Null)],
             capacity = 4, mask_v = 3, load = 0\<rparr>,
        bbo = BBO_new,
        order_count = 0\<rparr> 0 = Some Null \<and>
   add_order
     \<lparr>stock_locate = 1,
        bids = [],
        asks = [],
        orders =
          \<lparr>entries = [(0, Null), (0, Null), (0, Null), (0, Null)],
             capacity = 4, mask_v = 3, load = 0\<rparr>,
        bbo = BBO_new,
        order_count = 0\<rparr> 0 Buy 100 10 1
     (ObjectPool_new 4
        (\<lambda>_. \<lparr>order_id = 0, price = 0, quantity = 0, original_qty = 0, order_locate = 0,
                side = Sell, timestamp = 0\<rparr>)) =
     Some (Addr 3,
       \<lparr>stock_locate = 1,
          bids = [(100, \<lparr>pl_price = 100, pl_orders = [3], pl_total_quantity = 10, pl_order_count = 1\<rparr>)],
          asks = [],
          orders =
            \<lparr>entries = [(0, Addr 3), (0, Null), (0, Null), (0, Null)],
               capacity = 4, mask_v = 3, load = 1\<rparr>,
          bbo = \<lparr>bid_price = 100, ask_price = Price_max, bid_quantity = 10, ask_quantity = 0\<rparr>,
          order_count = 1\<rparr>,
       \<lparr>block_size = 4, blocks = 1, free_list = [0, 1, 2],
          store = (\<lambda>_. \<lparr>order_id = 0, price = 0, quantity = 0, original_qty = 0, order_locate = 0,
                          side = Sell, timestamp = 0\<rparr>)
                    (3 := \<lparr>order_id = 0, price = 100, quantity = 10, original_qty = 10, order_locate = 1,
                             side = Buy, timestamp = 1\<rparr>)\<rparr>) \<and>
   delete_order
     \<lparr>stock_locate = 1,
        bids = [(100, \<lparr>pl_price = 100, pl_orders = [3], pl_total_quantity = 10, pl_order_count = 1\<rparr>)],
        asks = [],
        orders =
          \<lparr>entries = [(0, Addr 3), (0, Null), (0, Null), (0, Null)],
             capacity = 4, mask_v = 3, load = 1\<rparr>,
        bbo = \<lparr>bid_price = 100, ask_price = Price_max, bid_quantity = 10, ask_quantity = 0\<rparr>,
        order_count = 1\<rparr> 0
     \<lparr>block_size = 4, blocks = 1, free_list = [0, 1, 2],
        store = (\<lambda>_. \<lparr>order_id = 0, price = 0, quantity = 0, original_qty = 0, order_locate = 0,
                        side = Sell, timestamp = 0\<rparr>)
                  (3 := \<lparr>order_id = 0, price = 100, quantity = 10, original_qty = 10, order_locate = 1,
                           side = Buy, timestamp = 1\<rparr>)\<rparr> =
     Some (False,
       \<lparr>stock_locate = 1,
          bids = [(100, \<lparr>pl_price = 100, pl_orders = [3], pl_total_quantity = 10, pl_order_count = 1\<rparr>)],
          asks = [],
          orders =
            \<lparr>entries = [(0, Addr 3), (0, Null), (0, Null), (0, Null)],
               capacity = 4, mask_v = 3, load = 1\<rparr>,
          bbo = \<lparr>bid_price = 100, ask_price = Price_max, bid_quantity = 10, ask_quantity = 0\<rparr>,
          order_count = 1\<rparr>,
       \<lparr>block_size = 4, blocks = 1, free_list = [0, 1, 2],
          store = (\<lambda>_. \<lparr>order_id = 0, price = 0, quantity = 0, original_qty = 0, order_locate = 0,
                          side = Sell, timestamp = 0\<rparr>)
                    (3 := \<lparr>order_id = 0, price = 100, quantity = 10, original_qty = 10, order_locate = 1,
                             side = Buy, timestamp = 1\<rparr>)\<rparr>) \<and>
   add_order
     \<lparr>stock_locate = 1,
        bids = [(100, \<lparr>pl_price = 100, pl_orders = [3], pl_total_quantity = 10, pl_order_count = 1\<rparr>)],
        asks = [],
        orders =
          \<lparr>entries = [(0, Addr 3), (0, Null), (0, Null), (0, Null)],
             capacity = 4, mask_v = 3, load = 1\<rparr>,
        bbo = \<lparr>bid_price = 100, ask_price = Price_max, bid_quantity = 10, ask_quantity = 0\<rparr>,
        order_count = 1\<rparr> 0 Buy 100 10 1
     \<lparr>block_size = 4, blocks = 1, free_list = [0, 1, 2],
        store = (\<lambda>_. \<lparr>order_id = 0, price = 0, quantity = 0, original_qty = 0, order_locate = 0,
                        side = Sell, timestamp = 0\<rparr>)
                  (3 := \<lparr>order_id = 0, price = 100, quantity = 10, original_qty = 10, order_locate = 1,
                           side = Buy, timestamp = 1\<rparr>)\<rparr> =
     Some (Addr 2,
       \<lparr>stock_locate = 1,
          bids = [(100, \<lparr>pl_price = 100, pl_orders = [3, 2], pl_total_quantity = 20, pl_order_count = 2\<rparr>)],
          asks = [],
          orders =
            \<lparr>entries = [(0, Addr 2), (0, Null), (0, Null), (0, Null)],
               capacity = 4, mask_v = 3, load = 2\<rparr>,
          bbo = \<lparr>bid_price = 100, ask_price = Price_max, bid_quantity = 20, ask_quantity = 0\<rparr>,
          order_count = 2\<rparr>,
       \<lparr>block_size = 4, blocks = 1, free_list = [0, 1],
          store = (\<lambda>_. \<lparr>order_id = 0, price = 0, quantity = 0, original_qty = 0, order_locate = 0,
                          side = Sell, timestamp = 0\<rparr>)
                    (3 := \<lparr>order_id = 0, price = 100, quantity = 10, original_qty = 10, order_locate = 1,
                             side = Buy, timestamp = 1\<rparr>,
                     2 := \<lparr>order_id = 0, price = 100, quantity = 10, original_qty = 10, order_locate = 1,
                             side = Buy, timestamp = 1\<rparr>)\<rparr>) \<and>
   [(100::Price, \<lparr>pl_price = 100, pl_orders = [3, 2], pl_total_quantity = 20, pl_order_count = 2\<rparr>)] \<noteq>
   [(100, \<lparr>pl_price = 100, pl_orders = [3], pl_total_quantity = 10, pl_order_count = 1\<rparr>)]"
proof -
  let ?m0 = "\<lparr>entries = [(0, Null), (0, Null), (0, Null), (0, Null)],
                capacity = 4, mask_v = 3, load = 0\<rparr>"
  let ?m1 = "\<lparr>entries = [(0, Addr 3), (0, Null), (0, Null), (0, Null)],
                capacity = 4, mask_v = 3, load = 1\<rparr>"
  let ?m3 = "\<lparr>entries = [(0, Addr 2), (0, Null), (0, Null), (0, Null)],
                capacity = 4, mask_v = 3, load = 2\<rparr>"
  let ?mem = "(\<lambda>_. \<lparr>order_id = 0, price = 0, quantity = 0, original_qty = 0, order_locate = 0,
                      side = Sell, timestamp = 0\<rparr>)"
  let ?b0 = "\<lparr>stock_locate = 1,
                bids = [],
                asks = [],
                orders =
                  \<lparr>entries = [(0, Null), (0, Null), (0, Null), (0, Null)],
                     capacity = 4, mask_v = 3, load = 0\<rparr>,
                bbo = BBO_new,
                order_count = 0\<rparr>"
  let ?b1 = "\<lparr>stock_locate = 1,
                bids = [(100, \<lparr>pl_price = 100, pl_orders = [3], pl_total_quantity = 10, pl_order_count = 1\<rparr>)],
                asks = [],
                orders =
                  \<lparr>entries = [(0, Addr 3), (0, Null), (0, Null), (0, Null)],
                     capacity = 4, mask_v = 3, load = 1\<rparr>,
                bbo = \<lparr>bid_price = 100, ask_price = Price_max, bid_quantity = 10, ask_quantity = 0\<rparr>,
                order_count = 1\<rparr>"
  let ?b3 = "\<lparr>stock_locate = 1,
                bids = [(100, \<lparr>pl_price = 100, pl_orders = [3, 2], pl_total_quantity = 20, pl_order_count = 2\<rparr>)],
                asks = [],
                orders =
                  \<lparr>entries = [(0, Addr 2), (0, Null), (0, Null), (0, Null)],
                     capacity = 4, mask_v = 3, load = 2\<rparr>,
                bbo = \<lparr>bid_price = 100, ask_price = Price_max, bid_quantity = 20, ask_quantity = 0\<rparr>,
                order_count = 2\<rparr>"
  let ?p1 = "\<lparr>block_size = 4, blocks = 1, free_list = [0, 1, 2],
                store = (\<lambda>_. \<lparr>order_id = 0, price = 0, quantity = 0, original_qty = 0, order_locate = 0,
                                side = Sell, timestamp = 0\<rparr>)
                          (3 := \<lparr>order_id = 0, price = 100, quantity = 10, original_qty = 10, order_locate = 1,
                                   side = Buy, timestamp = 1\<rparr>)\<rparr>"
  let ?p3 = "\<lparr>block_size = 4, blocks = 1, free_list = [0, 1],
                store = (\<lambda>_. \<lparr>order_id = 0, price = 0, quantity = 0, original_qty = 0, order_locate = 0,
                                side = Sell, timestamp = 0\<rparr>)
                          (3 := \<lparr>order_id = 0, price = 100, quantity = 10, original_qty = 10, order_locate = 1,
                                   side = Buy, timestamp = 1\<rparr>,
                           2 := \<lparr>order_id = 0, price = 100, quantity = 10, original_qty = 10, order_locate = 1,
                                   side = Buy, timestamp = 1\<rparr>)\<rparr>"
  have new: "OrderMap_new 4 = Some ?m0"
    by (simp add: OrderMap_new_def OrderMap_resize_def)
      ((subst grow_cap.simps, simp)+, simp add: numeral_eq_Suc)
  have fnd0: "OrderMap_find ?m0 0 = Some Null"
    by (simp add: OrderMap_find_def hash_def) (subst find_loop.simps, simp add: Suc_Suc_0)+
  have put0: "OrderMap_put ?m0 0 (Addr 3) = Some ?m1"
    by (simp add: OrderMap_put_def hash_def) (subst probe_empty.simps, simp add: Suc_Suc_0)+
  have fnd1: "OrderMap_find ?m1 0 = Some Null"
    by (simp add: OrderMap_find_def hash_def) (subst find_loop.simps, simp add: Suc_Suc_0)+
  have put1: "OrderMap_put ?m1 0 (Addr 2) = Some ?m3"
    by (simp add: OrderMap_put_def hash_def) (subst probe_empty.simps, simp add: Suc_Suc_0)+
  have upt: "[0..<4] = [0, 1, 2, 3::nat]" by (simp add: upt_rec)
  have p0: "ObjectPool_new 4 ?mem =
      \<lparr>block_size = 4, blocks = 1, free_list = [0, 1, 2, 3], store = ?mem\<rparr>"
    by (simp add: ObjectPool_new_def allocate_block_def upt)
  have buy: "is_buy Buy" by (simp add: is_buy_def)
  have r0: "OrderBook_reach ?b0 (ObjectPool_new 4 ?mem)"
    using new by (intro reach_book [of 4]) simp_all
  have g0: "get_order ?b0 0 = Some Null" using fnd0 by (simp add: get_order_def)
  have add1: "add_order ?b0 0 Buy 100 10 1 (ObjectPool_new 4 ?mem) = Some (Addr 3, ?b1, ?p1)"
    unfolding p0 add_order_def
    using fnd0 put0 buy
    by (simp add: acquire_def Let_def side_add_def PriceLevel_new_def
          PriceLevel_add_order_def update_best_bid_def BBO_new_def)
  have del: "delete_order ?b1 0 ?p1 = Some (False, ?b1, ?p1)"
    unfolding delete_order_def using fnd1 by simp
  have add2: "add_order ?b1 0 Buy 100 10 1 ?p1 = Some (Addr 2, ?b3, ?p3)"
    unfolding add_order_def
    using fnd1 put1 buy
    by (simp add: acquire_def Let_def side_add_def PriceLevel_new_def
          PriceLevel_add_order_def update_best_bid_def)
  have ne: "[(100::Price, \<lparr>pl_price = 100, pl_orders = [3, 2], pl_total_quantity = 20, pl_order_count = 2\<rparr>)] \<noteq>
            [(100, \<lparr>pl_price = 100, pl_orders = [3], pl_total_quantity = 10, pl_order_count = 1\<rparr>)]"
    by simp
  from r0 g0 add1 del add2 ne show ?thesis by (intro conjI)
qed

section \<open>Replacing an order\<close>

lemma map_of_side_remove:
  assumes ok: "side_ok st buy xs" and lv: "map_of xs p = Some lv"
    and a: "a \<in> set (pl_orders lv)"
  shows "map_of (side_remove buy p a st xs) =
           (map_of xs)(p :=
              if pl_orders lv = [a] then None
              else Some (lv\<lparr>pl_total_quantity := pl_total_quantity lv - quantity (st a),
                            pl_order_count := pl_order_count lv - 1,
                            pl_orders := remove1 a (pl_orders lv)\<rparr>))"
proof -
  from side_ok_level [OF ok lv] have "pl_order_count lv \<noteq> 0"
    by (auto simp: level_ok_def)
  then have "PriceLevel_remove_order lv st a =
      lv\<lparr>pl_total_quantity := pl_total_quantity lv - quantity (st a),
         pl_order_count := pl_order_count lv - 1,
         pl_orders := remove1 a (pl_orders lv)\<rparr>"
    by (simp add: PriceLevel_remove_order_def dec_size_t_def)
  then show ?thesis
    unfolding side_remove_eq [OF ok lv a] by (simp add: map_of_map_put map_of_map_erase)
qed

lemma map_of_side_add_explicit:
  "map_of (side_add buy p a st xs) =
     (map_of xs)(p \<mapsto>
        (let base = (case map_of xs p of
                       None \<Rightarrow> \<lparr>pl_price = p, pl_orders = [], pl_total_quantity = 0,
                                 pl_order_count = 0\<rparr>
                     | Some l \<Rightarrow> l)
         in base\<lparr>pl_orders := pl_orders base @ [a],
                 pl_total_quantity := pl_total_quantity base + quantity (st a),
                 pl_order_count := pl_order_count base + 1\<rparr>))"
  by (simp add: map_of_side_add PriceLevel_add_order_def PriceLevel_new_def Let_def
        split: option.split)

lemma acquire_released: "acquire (release p a) = (a, p)"
  by (simp add: acquire_def release_def)

text \<open>
  C4 (amended).  In every reachable state of a book: when the index does not hold
  \<^verbatim>\<open>old_id\<close>, \<^verbatim>\<open>replace_order\<close> returns null and changes nothing.  When the index holds the
  record \<open>a\<close> for \<^verbatim>\<open>old_id\<close>, and \<^verbatim>\<open>new_id\<close> is not 0 and not in the index, the call returns a
  record for which: \<^verbatim>\<open>get_order(old_id)\<close> is null and \<^verbatim>\<open>get_order(new_id)\<close> is the record; the
  record carries \<^verbatim>\<open>new_id\<close>, the new price and quantity, the side of the old order and the
  timestamp; on the side of the old order, the old record is unlinked from its level (the
  level is erased if it was the only order) and the new record is linked at the tail of
  the level of the new price (created if there is none), with totals and counts updated;
  the other side and all other ids are unchanged; and the cached BBO is the best of the
  new book on both sides.
\<close>

theorem replace_order_spec:
  fixes old_id :: OrderId and new_id :: OrderId and q :: Quantity and pr :: Price
    and ts :: Timestamp
  assumes reach: "OrderBook_reach b p"
  shows
    "(get_order b old_id = Some Null \<longrightarrow>
        replace_order b old_id new_id q pr ts p = Some (Null, b, p)) \<and>
     (\<forall>a. get_order b old_id = Some (Addr a) \<and> new_id \<noteq> 0 \<and>
           get_order b new_id = Some Null \<longrightarrow>
        (let ord = store p a; buy = is_buy (side ord)
         in \<exists>a' b' p' lv.
              replace_order b old_id new_id q pr ts p = Some (Addr a', b', p') \<and>
              get_order b' old_id = Some Null \<and>
              get_order b' new_id = Some (Addr a') \<and>
              (\<forall>k. k \<noteq> old_id \<and> k \<noteq> new_id \<longrightarrow> get_order b' k = get_order b k) \<and>
              store p' = (store p)(a' :=
                \<lparr>order_id = new_id, price = pr, quantity = q, original_qty = q,
                   order_locate = stock_locate b, side = side ord, timestamp = ts\<rparr>) \<and>
              map_of (if buy then bids b else asks b) (price ord) = Some lv \<and>
              a \<in> set (pl_orders lv) \<and>
              (let m1 = (map_of (if buy then bids b else asks b))(price ord :=
                          if pl_orders lv = [a] then None
                          else Some (lv\<lparr>pl_total_quantity :=
                                          pl_total_quantity lv - quantity ord,
                                        pl_order_count := pl_order_count lv - 1,
                                        pl_orders := remove1 a (pl_orders lv)\<rparr>));
                    base = (case m1 pr of
                              None \<Rightarrow> \<lparr>pl_price = pr, pl_orders = [],
                                        pl_total_quantity = 0, pl_order_count = 0\<rparr>
                            | Some l \<Rightarrow> l)
               in map_of (if buy then bids b' else asks b') =
                    m1(pr \<mapsto> base\<lparr>pl_orders := pl_orders base @ [a'],
                                     pl_total_quantity := pl_total_quantity base + q,
                                     pl_order_count := pl_order_count base + 1\<rparr>)) \<and>
              (if buy then asks b' = asks b else bids b' = bids b) \<and>
              bid_price (bbo b') =
                (if dom (map_of (bids b')) = {} then 0 else Max (dom (map_of (bids b')))) \<and>
              bid_quantity (bbo b') =
                (case map_of (bids b') (bid_price (bbo b')) of None \<Rightarrow> 0
                 | Some l \<Rightarrow> pl_total_quantity l) \<and>
              ask_price (bbo b') =
                (if dom (map_of (asks b')) = {} then Price_max
                 else Min (dom (map_of (asks b')))) \<and>
              ask_quantity (bbo b') =
                (case map_of (asks b') (ask_price (bbo b')) of None \<Rightarrow> 0
                 | Some l \<Rightarrow> pl_total_quantity l) \<and>
              order_count b' = dec_size_t (order_count b) + 1 \<and>
              stock_locate b' = stock_locate b \<and>
              free_list p' = free_list p))"
proof (intro conjI impI allI)
  from reach have inv: "OrderBook_inv b p" by (rule OrderBook_reach_inv)
  assume "get_order b old_id = Some Null"
  with inv have "OrderMap_abs (orders b) old_id = None" by (simp add: get_order_Null)
  with inv show "replace_order b old_id new_id q pr ts p = Some (Null, b, p)"
    by (rule replace_order_absent)
next
  fix a
  assume pre: "get_order b old_id = Some (Addr a) \<and> new_id \<noteq> 0 \<and>
    get_order b new_id = Some Null"
  from reach have inv: "OrderBook_inv b p" by (rule OrderBook_reach_inv)
  from inv pre have found: "OrderMap_abs (orders b) old_id = Some (Addr a)"
    and fresh: "OrderMap_abs (orders b) new_id = None" and nz: "new_id \<noteq> 0"
    by (simp_all add: get_order_Addr get_order_Null)
  from found fresh have ne: "old_id \<noteq> new_id" by auto
  from inv have bo: "side_ok (store p) True (bids b)" and ao: "side_ok (store p) False (asks b)"
    by (simp_all add: OrderBook_inv_def)
  define ord where "ord = store p a"
  define buy where "buy = is_buy (side ord)"
  define xs where "xs = (if buy then bids b else asks b)"
  from find_present [OF inv found]
  have fnd: "OrderMap_find (orders b) old_id = Some (Addr a)" and ab: "a \<in> book_addrs b"
    by auto
  from book_level [OF inv ab] obtain lv where
    lv: "map_of xs (price ord) = Some lv" "a \<in> set (pl_orders lv)"
    unfolding xs_def buy_def ord_def by auto
  have xs_ok: "side_ok (store p) buy xs" using bo ao by (simp add: xs_def)
  define bs1 where "bs1 = (if buy then side_remove True (price ord) a (store p) (bids b)
                           else bids b)"
  define as1 where "as1 = (if buy then asks b
                           else side_remove False (price ord) a (store p) (asks b))"
  have buy_eq: "buy = is_buy (side (store p a))" by (simp add: buy_def ord_def)
  have pr_eq: "price ord = price (store p a)" by (simp add: ord_def)
  from delete_order_present [OF inv found buy_eq pr_eq bs1_def as1_def] obtain om1 where
    abs1: "OrderMap_abs om1 = (OrderMap_abs (orders b))(old_id := None)"
    and del: "delete_order b old_id p =
        Some (True, b\<lparr>bids := bs1, asks := as1, orders := om1, bbo := bbo_of bs1 as1,
                       order_count := dec_size_t (order_count b)\<rparr>, release p a)"
    and inv1: "OrderBook_inv (b\<lparr>bids := bs1, asks := as1, orders := om1, bbo := bbo_of bs1 as1,
                       order_count := dec_size_t (order_count b)\<rparr>) (release p a)"
    by auto
  define b1 where "b1 = b\<lparr>bids := bs1, asks := as1, orders := om1, bbo := bbo_of bs1 as1,
                       order_count := dec_size_t (order_count b)\<rparr>"
  have rep: "replace_order b old_id new_id q pr ts p =
      add_order b1 new_id (side ord) pr q ts (release p a)"
    using fnd del by (simp add: replace_order_def Let_def b1_def ord_def)
  have fresh1: "OrderMap_abs (orders b1) new_id = None"
    using abs1 fresh by (simp add: b1_def)
  define new where "new = \<lparr>order_id = new_id, price = pr, quantity = q, original_qty = q,
      order_locate = stock_locate b1, side = side ord, timestamp = ts\<rparr>"
  define p' where "p' = p\<lparr>store := (store (release p a))(a := new)\<rparr>"
  define bs2 where "bs2 = (if is_buy (side ord) then side_add True pr a (store p') (bids b1)
                           else bids b1)"
  define as2 where "as2 = (if is_buy (side ord) then asks b1
                           else side_add False pr a (store p') (asks b1))"
  from add_order_new [OF inv1 [folded b1_def] fresh1 acquire_released new_def p'_def
      bs2_def as2_def] nz
  obtain om2 where
    abs2: "OrderMap_abs om2 = (OrderMap_abs (orders b1))(new_id \<mapsto> Addr a)"
    and add: "add_order b1 new_id (side ord) pr q ts (release p a) =
        Some (Addr a, b1\<lparr>bids := bs2, asks := as2, orders := om2, bbo := bbo_of bs2 as2,
                          order_count := order_count b1 + 1\<rparr>, p')"
    and inv2: "OrderBook_inv (b1\<lparr>bids := bs2, asks := as2, orders := om2, bbo := bbo_of bs2 as2,
                          order_count := order_count b1 + 1\<rparr>) p'"
    by auto
  define b' where "b' = b1\<lparr>bids := bs2, asks := as2, orders := om2, bbo := bbo_of bs2 as2,
                          order_count := order_count b1 + 1\<rparr>"
  note inv2' = inv2 [folded b'_def]
  have abs': "OrderMap_abs (orders b') =
      (OrderMap_abs (orders b))(old_id := None, new_id \<mapsto> Addr a)"
    using abs2 abs1 by (simp add: b'_def b1_def)
  have c1: "replace_order b old_id new_id q pr ts p = Some (Addr a, b', p')"
    using rep add by (simp add: b'_def)
  have c2: "get_order b' old_id = Some Null"
    using get_order_inv [OF inv2', of old_id] abs' ne by simp
  have c3: "get_order b' new_id = Some (Addr a)"
    using get_order_inv [OF inv2', of new_id] abs' by simp
  have c4: "\<forall>k. k \<noteq> old_id \<and> k \<noteq> new_id \<longrightarrow> get_order b' k = get_order b k"
    using get_order_inv [OF inv2'] get_order_inv [OF inv] abs' by simp
  have c5: "store p' = (store p)(a :=
      \<lparr>order_id = new_id, price = pr, quantity = q, original_qty = q,
         order_locate = stock_locate b, side = side ord, timestamp = ts\<rparr>)"
    by (simp add: p'_def new_def release_def b1_def)
  have qa: "quantity (store p' a) = q" by (simp add: c5)
  define m1 where "m1 = (map_of xs)(price ord :=
      if pl_orders lv = [a] then None
      else Some (lv\<lparr>pl_total_quantity := pl_total_quantity lv - quantity ord,
                    pl_order_count := pl_order_count lv - 1,
                    pl_orders := remove1 a (pl_orders lv)\<rparr>))"
  define base where "base = (case m1 pr of
      None \<Rightarrow> \<lparr>pl_price = pr, pl_orders = [], pl_total_quantity = 0, pl_order_count = 0\<rparr>
    | Some l \<Rightarrow> l)"
  define xs1 where "xs1 = side_remove buy (price ord) a (store p) xs"
  have m1_eq: "map_of xs1 = m1"
    unfolding xs1_def m1_def using map_of_side_remove [OF xs_ok lv] by (simp add: ord_def)
  have xs'_eq: "(if buy then bids b' else asks b') = side_add buy pr a (store p') xs1"
    by (cases buy)
      (simp_all add: b'_def b1_def bs2_def as2_def bs1_def as1_def xs1_def xs_def
         buy_def [symmetric])
  have c6: "map_of (if buy then bids b' else asks b') =
      m1(pr \<mapsto> base\<lparr>pl_orders := pl_orders base @ [a],
                       pl_total_quantity := pl_total_quantity base + q,
                       pl_order_count := pl_order_count base + 1\<rparr>)"
    unfolding xs'_eq map_of_side_add_explicit m1_eq qa base_def by (simp add: Let_def)
  have c7: "if buy then asks b' = asks b else bids b' = bids b"
    by (cases buy)
      (simp_all add: b'_def b1_def bs2_def as2_def bs1_def as1_def buy_def [symmetric])
  have c8: "order_count b' = dec_size_t (order_count b) + 1"
    "stock_locate b' = stock_locate b" "free_list p' = free_list p"
    by (simp_all add: b'_def b1_def p'_def)
  note c9 = inv_bbo [OF inv2']
  have "replace_order b old_id new_id q pr ts p = Some (Addr a, b', p') \<and>
        get_order b' old_id = Some Null \<and>
        get_order b' new_id = Some (Addr a) \<and>
        (\<forall>k. k \<noteq> old_id \<and> k \<noteq> new_id \<longrightarrow> get_order b' k = get_order b k) \<and>
        store p' = (store p)(a :=
          \<lparr>order_id = new_id, price = pr, quantity = q, original_qty = q,
             order_locate = stock_locate b, side = side ord, timestamp = ts\<rparr>) \<and>
        map_of (if buy then bids b else asks b) (price ord) = Some lv \<and>
        a \<in> set (pl_orders lv) \<and>
        (let m1 = (map_of (if buy then bids b else asks b))(price ord :=
                    if pl_orders lv = [a] then None
                    else Some (lv\<lparr>pl_total_quantity :=
                                    pl_total_quantity lv - quantity ord,
                                  pl_order_count := pl_order_count lv - 1,
                                  pl_orders := remove1 a (pl_orders lv)\<rparr>));
              base = (case m1 pr of
                        None \<Rightarrow> \<lparr>pl_price = pr, pl_orders = [],
                                  pl_total_quantity = 0, pl_order_count = 0\<rparr>
                      | Some l \<Rightarrow> l)
         in map_of (if buy then bids b' else asks b') =
              m1(pr \<mapsto> base\<lparr>pl_orders := pl_orders base @ [a],
                               pl_total_quantity := pl_total_quantity base + q,
                               pl_order_count := pl_order_count base + 1\<rparr>)) \<and>
        (if buy then asks b' = asks b else bids b' = bids b) \<and>
        bid_price (bbo b') =
          (if dom (map_of (bids b')) = {} then 0 else Max (dom (map_of (bids b')))) \<and>
        bid_quantity (bbo b') =
          (case map_of (bids b') (bid_price (bbo b')) of None \<Rightarrow> 0
           | Some l \<Rightarrow> pl_total_quantity l) \<and>
        ask_price (bbo b') =
          (if dom (map_of (asks b')) = {} then Price_max
           else Min (dom (map_of (asks b')))) \<and>
        ask_quantity (bbo b') =
          (case map_of (asks b') (ask_price (bbo b')) of None \<Rightarrow> 0
           | Some l \<Rightarrow> pl_total_quantity l) \<and>
        order_count b' = dec_size_t (order_count b) + 1 \<and>
        stock_locate b' = stock_locate b \<and>
        free_list p' = free_list p"
    using c1 c2 c3 c4 c5 lv c6 c7 c8 c9
    unfolding Let_def m1_def [symmetric, unfolded xs_def] base_def [symmetric]
    by (simp only: xs_def [symmetric] simp_thms m1_def base_def) 
  then show "let ord = store p a; buy = is_buy (side ord)
         in \<exists>a' b' p' lv.
              replace_order b old_id new_id q pr ts p = Some (Addr a', b', p') \<and>
              get_order b' old_id = Some Null \<and>
              get_order b' new_id = Some (Addr a') \<and>
              (\<forall>k. k \<noteq> old_id \<and> k \<noteq> new_id \<longrightarrow> get_order b' k = get_order b k) \<and>
              store p' = (store p)(a' :=
                \<lparr>order_id = new_id, price = pr, quantity = q, original_qty = q,
                   order_locate = stock_locate b, side = side ord, timestamp = ts\<rparr>) \<and>
              map_of (if buy then bids b else asks b) (price ord) = Some lv \<and>
              a \<in> set (pl_orders lv) \<and>
              (let m1 = (map_of (if buy then bids b else asks b))(price ord :=
                          if pl_orders lv = [a] then None
                          else Some (lv\<lparr>pl_total_quantity :=
                                          pl_total_quantity lv - quantity ord,
                                        pl_order_count := pl_order_count lv - 1,
                                        pl_orders := remove1 a (pl_orders lv)\<rparr>));
                    base = (case m1 pr of
                              None \<Rightarrow> \<lparr>pl_price = pr, pl_orders = [],
                                        pl_total_quantity = 0, pl_order_count = 0\<rparr>
                            | Some l \<Rightarrow> l)
               in map_of (if buy then bids b' else asks b') =
                    m1(pr \<mapsto> base\<lparr>pl_orders := pl_orders base @ [a'],
                                     pl_total_quantity := pl_total_quantity base + q,
                                     pl_order_count := pl_order_count base + 1\<rparr>)) \<and>
              (if buy then asks b' = asks b else bids b' = bids b) \<and>
              bid_price (bbo b') =
                (if dom (map_of (bids b')) = {} then 0 else Max (dom (map_of (bids b')))) \<and>
              bid_quantity (bbo b') =
                (case map_of (bids b') (bid_price (bbo b')) of None \<Rightarrow> 0
                 | Some l \<Rightarrow> pl_total_quantity l) \<and>
              ask_price (bbo b') =
                (if dom (map_of (asks b')) = {} then Price_max
                 else Min (dom (map_of (asks b')))) \<and>
              ask_quantity (bbo b') =
                (case map_of (asks b') (ask_price (bbo b')) of None \<Rightarrow> 0
                 | Some l \<Rightarrow> pl_total_quantity l) \<and>
              order_count b' = dec_size_t (order_count b) + 1 \<and>
              stock_locate b' = stock_locate b \<and>
              free_list p' = free_list p"
    unfolding ord_def [symmetric] buy_def [symmetric] Let_def by blast
qed
text \<open>
  A book with a table of capacity 8 and a pool of blocks of 4 records, after
  \<^verbatim>\<open>add_order(1001, Buy, 1500000, 500, 1)\<close>.  Replacing 1001 by 1002 with 750 shares at
  1505000 leaves no order 1001, the buy order 1002 with the new price and quantity, no
  level at 1500000, and the best bid 750 shares at 1505000.
\<close>

theorem replace_order_spec_witness:
  "OrderBook_reach
     \<lparr>stock_locate = 1,
        bids = [(1500000, \<lparr>pl_price = 1500000, pl_orders = [3], pl_total_quantity = 500, pl_order_count = 1\<rparr>)],
        asks = [],
        orders =
          \<lparr>entries = [(0, Null), (1001, Addr 3), (0, Null), (0, Null),
                      (0, Null), (0, Null), (0, Null), (0, Null)],
             capacity = 8, mask_v = 7, load = 1\<rparr>,
        bbo = \<lparr>bid_price = 1500000, ask_price = Price_max, bid_quantity = 500, ask_quantity = 0\<rparr>,
        order_count = 1\<rparr>
     \<lparr>block_size = 4, blocks = 1, free_list = [0, 1, 2],
        store = (\<lambda>_. \<lparr>order_id = 0, price = 0, quantity = 0, original_qty = 0, order_locate = 0,
                        side = Sell, timestamp = 0\<rparr>)
                  (3 := \<lparr>order_id = 1001, price = 1500000, quantity = 500, original_qty = 500, order_locate = 1,
                           side = Buy, timestamp = 1\<rparr>)\<rparr> \<and>
   (\<exists>a' b' p'.
      replace_order
        \<lparr>stock_locate = 1,
           bids = [(1500000, \<lparr>pl_price = 1500000, pl_orders = [3], pl_total_quantity = 500, pl_order_count = 1\<rparr>)],
           asks = [],
           orders =
             \<lparr>entries = [(0, Null), (1001, Addr 3), (0, Null), (0, Null),
                         (0, Null), (0, Null), (0, Null), (0, Null)],
                capacity = 8, mask_v = 7, load = 1\<rparr>,
           bbo = \<lparr>bid_price = 1500000, ask_price = Price_max, bid_quantity = 500, ask_quantity = 0\<rparr>,
           order_count = 1\<rparr> 1001 1002 750 1505000 2
        \<lparr>block_size = 4, blocks = 1, free_list = [0, 1, 2],
           store = (\<lambda>_. \<lparr>order_id = 0, price = 0, quantity = 0, original_qty = 0, order_locate = 0,
                           side = Sell, timestamp = 0\<rparr>)
                     (3 := \<lparr>order_id = 1001, price = 1500000, quantity = 500, original_qty = 500, order_locate = 1,
                              side = Buy, timestamp = 1\<rparr>)\<rparr> = Some (Addr a', b', p') \<and>
      get_order b' 1001 = Some Null \<and> get_order b' 1002 = Some (Addr a') \<and>
      store p' a' =
        \<lparr>order_id = 1002, price = 1505000, quantity = 750, original_qty = 750, order_locate = 1,
           side = Buy, timestamp = 2\<rparr> \<and>
      map_of (bids b') 1500000 = None \<and>
      map_of (bids b') 1505000 =
        Some \<lparr>pl_price = 1505000, pl_orders = [a'], pl_total_quantity = 750,
               pl_order_count = 1\<rparr> \<and>
      asks b' = [] \<and>
      bid_price (bbo b') = 1505000 \<and> bid_quantity (bbo b') = 750 \<and>
      ask_price (bbo b') = Price_max \<and> ask_quantity (bbo b') = 0)"
proof -
  let ?mem = "(\<lambda>_. \<lparr>order_id = 0, price = 0, quantity = 0, original_qty = 0, order_locate = 0,
                      side = Sell, timestamp = 0\<rparr>)"
  let ?m0 = "\<lparr>entries = [(0, Null), (0, Null), (0, Null), (0, Null),
                         (0, Null), (0, Null), (0, Null), (0, Null)],
                capacity = 8, mask_v = 7, load = 0\<rparr>"
  let ?m1 = "\<lparr>entries = [(0, Null), (1001, Addr 3), (0, Null), (0, Null),
                         (0, Null), (0, Null), (0, Null), (0, Null)],
                capacity = 8, mask_v = 7, load = 1\<rparr>"
  let ?b0 = "\<lparr>stock_locate = 1,
                bids = [],
                asks = [],
                orders =
                  \<lparr>entries = [(0, Null), (0, Null), (0, Null), (0, Null),
                              (0, Null), (0, Null), (0, Null), (0, Null)],
                     capacity = 8, mask_v = 7, load = 0\<rparr>,
                bbo = BBO_new,
                order_count = 0\<rparr>"
  let ?b1 = "\<lparr>stock_locate = 1,
                bids = [(1500000, \<lparr>pl_price = 1500000, pl_orders = [3], pl_total_quantity = 500, pl_order_count = 1\<rparr>)],
                asks = [],
                orders =
                  \<lparr>entries = [(0, Null), (1001, Addr 3), (0, Null), (0, Null),
                              (0, Null), (0, Null), (0, Null), (0, Null)],
                     capacity = 8, mask_v = 7, load = 1\<rparr>,
                bbo = \<lparr>bid_price = 1500000, ask_price = Price_max, bid_quantity = 500, ask_quantity = 0\<rparr>,
                order_count = 1\<rparr>"
  let ?p1 = "\<lparr>block_size = 4, blocks = 1, free_list = [0, 1, 2],
                store = (\<lambda>_. \<lparr>order_id = 0, price = 0, quantity = 0, original_qty = 0, order_locate = 0,
                                side = Sell, timestamp = 0\<rparr>)
                          (3 := \<lparr>order_id = 1001, price = 1500000, quantity = 500, original_qty = 500, order_locate = 1,
                                   side = Buy, timestamp = 1\<rparr>)\<rparr>"
  have new: "OrderMap_new 8 = Some ?m0"
    by (simp add: OrderMap_new_def OrderMap_resize_def)
      ((subst grow_cap.simps, simp)+, simp add: numeral_eq_Suc)
  have fnd0: "OrderMap_find ?m0 1001 = Some Null"
    by (simp add: OrderMap_find_def hash_def) (subst find_loop.simps, simp add: Suc_Suc_0)+
  have put0: "OrderMap_put ?m0 1001 (Addr 3) = Some ?m1"
    by (simp add: OrderMap_put_def hash_def) (subst probe_empty.simps, simp add: Suc_Suc_0)+
  have f1001: "OrderMap_find ?m1 1001 = Some (Addr 3)"
    by (simp add: OrderMap_find_def hash_def) (subst find_loop.simps, simp add: Suc_Suc_0)+
  have f1002: "OrderMap_find ?m1 1002 = Some Null"
    by (simp add: OrderMap_find_def hash_def) (subst find_loop.simps, simp add: Suc_Suc_0)+
  have upt: "[0..<4] = [0, 1, 2, 3::nat]" by (simp add: upt_rec)
  have p0: "ObjectPool_new 4 ?mem =
      \<lparr>block_size = 4, blocks = 1, free_list = [0, 1, 2, 3], store = ?mem\<rparr>"
    by (simp add: ObjectPool_new_def allocate_block_def upt)
  have buy: "is_buy Buy" by (simp add: is_buy_def)
  have r0: "OrderBook_reach ?b0 (ObjectPool_new 4 ?mem)"
    using new by (intro reach_book [of 8]) simp_all
  have add1: "add_order ?b0 1001 Buy 1500000 500 1 (ObjectPool_new 4 ?mem) =
      Some (Addr 3, ?b1, ?p1)"
    unfolding p0 add_order_def
    using fnd0 put0 buy
    by (simp add: acquire_def Let_def side_add_def PriceLevel_new_def
          PriceLevel_add_order_def update_best_bid_def BBO_new_def)
  have r1: "OrderBook_reach ?b1 ?p1" using r0 add1 by (rule reach_add)
  have pre: "get_order ?b1 1001 = Some (Addr 3) \<and> (1002::OrderId) \<noteq> 0 \<and>
      get_order ?b1 1002 = Some Null"
    using f1001 f1002 by (simp add: get_order_def)
  let ?ord = "store ?p1 3"
  let ?buy = "is_buy (side ?ord)"
  note post = replace_order_spec [OF r1, of 1001 1002 750 1505000 2, THEN conjunct2,
      rule_format, OF pre, unfolded Let_def]
  from post obtain a' b' p' lv where
    rp: "replace_order ?b1 1001 1002 750 1505000 2 ?p1 = Some (Addr a', b', p')"
    and g1: "get_order b' 1001 = Some Null"
    and g2: "get_order b' 1002 = Some (Addr a')"
    and st: "store p' = (store ?p1)(a' :=
        \<lparr>order_id = 1002, price = 1505000, quantity = 750, original_qty = 750,
           order_locate = stock_locate ?b1, side = side ?ord, timestamp = 2\<rparr>)"
    and lv: "map_of (if ?buy then bids ?b1 else asks ?b1) (price ?ord) = Some lv"
    and mp: "map_of (if ?buy then bids b' else asks b') =
        ((map_of (if ?buy then bids ?b1 else asks ?b1))(price ?ord :=
            if pl_orders lv = [3] then None
            else Some (lv\<lparr>pl_total_quantity := pl_total_quantity lv - quantity ?ord,
                          pl_order_count := pl_order_count lv - 1,
                          pl_orders := remove1 3 (pl_orders lv)\<rparr>)))
        (1505000 \<mapsto>
           (case ((map_of (if ?buy then bids ?b1 else asks ?b1))(price ?ord :=
                     if pl_orders lv = [3] then None
                     else Some (lv\<lparr>pl_total_quantity := pl_total_quantity lv - quantity ?ord,
                                   pl_order_count := pl_order_count lv - 1,
                                   pl_orders := remove1 3 (pl_orders lv)\<rparr>))) 1505000 of
              None \<Rightarrow> \<lparr>pl_price = 1505000, pl_orders = [], pl_total_quantity = 0,
                        pl_order_count = 0\<rparr>
            | Some l \<Rightarrow> l)
           \<lparr>pl_orders :=
              pl_orders
               (case ((map_of (if ?buy then bids ?b1 else asks ?b1))(price ?ord :=
                         if pl_orders lv = [3] then None
                         else Some (lv\<lparr>pl_total_quantity :=
                                         pl_total_quantity lv - quantity ?ord,
                                       pl_order_count := pl_order_count lv - 1,
                                       pl_orders := remove1 3 (pl_orders lv)\<rparr>))) 1505000 of
                  None \<Rightarrow> \<lparr>pl_price = 1505000, pl_orders = [], pl_total_quantity = 0,
                            pl_order_count = 0\<rparr>
                | Some l \<Rightarrow> l) @ [a'],
            pl_total_quantity :=
              pl_total_quantity
               (case ((map_of (if ?buy then bids ?b1 else asks ?b1))(price ?ord :=
                         if pl_orders lv = [3] then None
                         else Some (lv\<lparr>pl_total_quantity :=
                                         pl_total_quantity lv - quantity ?ord,
                                       pl_order_count := pl_order_count lv - 1,
                                       pl_orders := remove1 3 (pl_orders lv)\<rparr>))) 1505000 of
                  None \<Rightarrow> \<lparr>pl_price = 1505000, pl_orders = [], pl_total_quantity = 0,
                            pl_order_count = 0\<rparr>
                | Some l \<Rightarrow> l) + 750,
            pl_order_count :=
              pl_order_count
               (case ((map_of (if ?buy then bids ?b1 else asks ?b1))(price ?ord :=
                         if pl_orders lv = [3] then None
                         else Some (lv\<lparr>pl_total_quantity :=
                                         pl_total_quantity lv - quantity ?ord,
                                       pl_order_count := pl_order_count lv - 1,
                                       pl_orders := remove1 3 (pl_orders lv)\<rparr>))) 1505000 of
                  None \<Rightarrow> \<lparr>pl_price = 1505000, pl_orders = [], pl_total_quantity = 0,
                            pl_order_count = 0\<rparr>
                | Some l \<Rightarrow> l) + 1\<rparr>)"
    and os: "if ?buy then asks b' = asks ?b1 else bids b' = bids ?b1"
    and bp: "bid_price (bbo b') =
               (if dom (map_of (bids b')) = {} then 0 else Max (dom (map_of (bids b'))))"
    and bq: "bid_quantity (bbo b') =
               (case map_of (bids b') (bid_price (bbo b')) of None \<Rightarrow> 0
                | Some l \<Rightarrow> pl_total_quantity l)"
    and ap: "ask_price (bbo b') =
               (if dom (map_of (asks b')) = {} then Price_max
                else Min (dom (map_of (asks b'))))"
    and aq: "ask_quantity (bbo b') =
               (case map_of (asks b') (ask_price (bbo b')) of None \<Rightarrow> 0
                | Some l \<Rightarrow> pl_total_quantity l)"
    by (elim exE conjE) (rule that; assumption)
  have lv_eq: "lv = \<lparr>pl_price = 1500000, pl_orders = [3], pl_total_quantity = 500,
                      pl_order_count = 1\<rparr>"
    using lv buy by simp
  have m: "map_of (bids b') =
      [1505000 \<mapsto> \<lparr>pl_price = 1505000, pl_orders = [a'], pl_total_quantity = 750,
                      pl_order_count = 1\<rparr>]"
    using mp buy unfolding lv_eq by (simp add: fun_eq_iff)
  have as: "asks b' = []" using os buy by simp
  have f3: "store p' a' =
      \<lparr>order_id = 1002, price = 1505000, quantity = 750, original_qty = 750, order_locate = 1,
         side = Buy, timestamp = 2\<rparr>"
    unfolding st using buy by simp
  have f4: "map_of (bids b') 1500000 = None" unfolding m by simp
  have f5: "map_of (bids b') 1505000 =
      Some \<lparr>pl_price = 1505000, pl_orders = [a'], pl_total_quantity = 750,
             pl_order_count = 1\<rparr>" unfolding m by simp
  have f6: "bid_price (bbo b') = 1505000" unfolding bp m by simp
  have f7: "bid_quantity (bbo b') = 750" unfolding bq f6 m by simp
  have f8: "ask_price (bbo b') = Price_max" unfolding ap as by simp
  have f9: "ask_quantity (bbo b') = 0" unfolding aq as by simp
  from rp g1 g2 f3 f4 f5 as f6 f7 f8 f9
  have "\<exists>a' b' p'.
      replace_order ?b1 1001 1002 750 1505000 2 ?p1 = Some (Addr a', b', p') \<and>
      get_order b' 1001 = Some Null \<and> get_order b' 1002 = Some (Addr a') \<and>
      store p' a' =
        \<lparr>order_id = 1002, price = 1505000, quantity = 750, original_qty = 750, order_locate = 1,
           side = Buy, timestamp = 2\<rparr> \<and>
      map_of (bids b') 1500000 = None \<and>
      map_of (bids b') 1505000 =
        Some \<lparr>pl_price = 1505000, pl_orders = [a'], pl_total_quantity = 750,
               pl_order_count = 1\<rparr> \<and>
      asks b' = [] \<and>
      bid_price (bbo b') = 1505000 \<and> bid_quantity (bbo b') = 750 \<and>
      ask_price (bbo b') = Price_max \<and> ask_quantity (bbo b') = 0"
    by blast
  with r1 show ?thesis by (intro conjI)
qed

text \<open>
  C4 as stated fails when \<^verbatim>\<open>new_id\<close> is already in the index or is 0.  The book holds the
  buy orders 1 (10 shares at 100) and 2 (5 shares at 101).  \<^verbatim>\<open>replace_order(1, 2, 7, 102, 9)\<close>
  deletes order 1 and then fails to add: it returns null, and order 2 is still the old
  record of 5 shares at 101.  On the book that holds order 1 alone,
  \<^verbatim>\<open>replace_order(1, 0, 7, 102, 9)\<close> returns the new record, which is linked in the level of
  price 102, but \<^verbatim>\<open>get_order(0)\<close> is null: the table treats the id 0 as an empty slot.
\<close>

theorem replace_order_counterexample:
  "OrderBook_reach
     \<lparr>stock_locate = 1,
        bids = [(101, \<lparr>pl_price = 101, pl_orders = [2], pl_total_quantity = 5, pl_order_count = 1\<rparr>),
                (100, \<lparr>pl_price = 100, pl_orders = [3], pl_total_quantity = 10, pl_order_count = 1\<rparr>)],
        asks = [],
        orders =
          \<lparr>entries = [(0, Null), (1, Addr 3), (2, Addr 2), (0, Null),
                      (0, Null), (0, Null), (0, Null), (0, Null)],
             capacity = 8, mask_v = 7, load = 2\<rparr>,
        bbo = \<lparr>bid_price = 101, ask_price = Price_max, bid_quantity = 5, ask_quantity = 0\<rparr>,
        order_count = 2\<rparr>
     \<lparr>block_size = 4, blocks = 1, free_list = [0, 1],
        store = (\<lambda>_. \<lparr>order_id = 0, price = 0, quantity = 0, original_qty = 0, order_locate = 0,
                        side = Sell, timestamp = 0\<rparr>)
                  (3 := \<lparr>order_id = 1, price = 100, quantity = 10, original_qty = 10, order_locate = 1,
                           side = Buy, timestamp = 1\<rparr>,
                   2 := \<lparr>order_id = 2, price = 101, quantity = 5, original_qty = 5, order_locate = 1,
                           side = Buy, timestamp = 2\<rparr>)\<rparr> \<and>
   get_order
     \<lparr>stock_locate = 1,
        bids = [(101, \<lparr>pl_price = 101, pl_orders = [2], pl_total_quantity = 5, pl_order_count = 1\<rparr>),
                (100, \<lparr>pl_price = 100, pl_orders = [3], pl_total_quantity = 10, pl_order_count = 1\<rparr>)],
        asks = [],
        orders =
          \<lparr>entries = [(0, Null), (1, Addr 3), (2, Addr 2), (0, Null),
                      (0, Null), (0, Null), (0, Null), (0, Null)],
             capacity = 8, mask_v = 7, load = 2\<rparr>,
        bbo = \<lparr>bid_price = 101, ask_price = Price_max, bid_quantity = 5, ask_quantity = 0\<rparr>,
        order_count = 2\<rparr> 1 = Some (Addr 3) \<and>
   replace_order
     \<lparr>stock_locate = 1,
        bids = [(101, \<lparr>pl_price = 101, pl_orders = [2], pl_total_quantity = 5, pl_order_count = 1\<rparr>),
                (100, \<lparr>pl_price = 100, pl_orders = [3], pl_total_quantity = 10, pl_order_count = 1\<rparr>)],
        asks = [],
        orders =
          \<lparr>entries = [(0, Null), (1, Addr 3), (2, Addr 2), (0, Null),
                      (0, Null), (0, Null), (0, Null), (0, Null)],
             capacity = 8, mask_v = 7, load = 2\<rparr>,
        bbo = \<lparr>bid_price = 101, ask_price = Price_max, bid_quantity = 5, ask_quantity = 0\<rparr>,
        order_count = 2\<rparr> 1 2 7 102 9
     \<lparr>block_size = 4, blocks = 1, free_list = [0, 1],
        store = (\<lambda>_. \<lparr>order_id = 0, price = 0, quantity = 0, original_qty = 0, order_locate = 0,
                        side = Sell, timestamp = 0\<rparr>)
                  (3 := \<lparr>order_id = 1, price = 100, quantity = 10, original_qty = 10, order_locate = 1,
                           side = Buy, timestamp = 1\<rparr>,
                   2 := \<lparr>order_id = 2, price = 101, quantity = 5, original_qty = 5, order_locate = 1,
                           side = Buy, timestamp = 2\<rparr>)\<rparr> =
     Some (Null,
       \<lparr>stock_locate = 1,
          bids = [(101, \<lparr>pl_price = 101, pl_orders = [2], pl_total_quantity = 5, pl_order_count = 1\<rparr>)],
          asks = [],
          orders =
            \<lparr>entries = [(0, Null), (0, Addr 3), (2, Addr 2), (0, Null),
                        (0, Null), (0, Null), (0, Null), (0, Null)],
               capacity = 8, mask_v = 7, load = 1\<rparr>,
          bbo = \<lparr>bid_price = 101, ask_price = Price_max, bid_quantity = 5, ask_quantity = 0\<rparr>,
          order_count = 1\<rparr>,
       \<lparr>block_size = 4, blocks = 1, free_list = [0, 1, 3],
          store = (\<lambda>_. \<lparr>order_id = 0, price = 0, quantity = 0, original_qty = 0, order_locate = 0,
                          side = Sell, timestamp = 0\<rparr>)
                    (3 := \<lparr>order_id = 1, price = 100, quantity = 10, original_qty = 10, order_locate = 1,
                             side = Buy, timestamp = 1\<rparr>,
                     2 := \<lparr>order_id = 2, price = 101, quantity = 5, original_qty = 5, order_locate = 1,
                             side = Buy, timestamp = 2\<rparr>)\<rparr>) \<and>
   get_order
     \<lparr>stock_locate = 1,
        bids = [(101, \<lparr>pl_price = 101, pl_orders = [2], pl_total_quantity = 5, pl_order_count = 1\<rparr>)],
        asks = [],
        orders =
          \<lparr>entries = [(0, Null), (0, Addr 3), (2, Addr 2), (0, Null),
                      (0, Null), (0, Null), (0, Null), (0, Null)],
             capacity = 8, mask_v = 7, load = 1\<rparr>,
        bbo = \<lparr>bid_price = 101, ask_price = Price_max, bid_quantity = 5, ask_quantity = 0\<rparr>,
        order_count = 1\<rparr> 2 = Some (Addr 2) \<and>
   OrderBook_reach
     \<lparr>stock_locate = 1,
        bids = [(100, \<lparr>pl_price = 100, pl_orders = [3], pl_total_quantity = 10, pl_order_count = 1\<rparr>)],
        asks = [],
        orders =
          \<lparr>entries = [(0, Null), (1, Addr 3), (0, Null), (0, Null),
                      (0, Null), (0, Null), (0, Null), (0, Null)],
             capacity = 8, mask_v = 7, load = 1\<rparr>,
        bbo = \<lparr>bid_price = 100, ask_price = Price_max, bid_quantity = 10, ask_quantity = 0\<rparr>,
        order_count = 1\<rparr>
     \<lparr>block_size = 4, blocks = 1, free_list = [0, 1, 2],
        store = (\<lambda>_. \<lparr>order_id = 0, price = 0, quantity = 0, original_qty = 0, order_locate = 0,
                        side = Sell, timestamp = 0\<rparr>)
                  (3 := \<lparr>order_id = 1, price = 100, quantity = 10, original_qty = 10, order_locate = 1,
                           side = Buy, timestamp = 1\<rparr>)\<rparr> \<and>
   get_order
     \<lparr>stock_locate = 1,
        bids = [(100, \<lparr>pl_price = 100, pl_orders = [3], pl_total_quantity = 10, pl_order_count = 1\<rparr>)],
        asks = [],
        orders =
          \<lparr>entries = [(0, Null), (1, Addr 3), (0, Null), (0, Null),
                      (0, Null), (0, Null), (0, Null), (0, Null)],
             capacity = 8, mask_v = 7, load = 1\<rparr>,
        bbo = \<lparr>bid_price = 100, ask_price = Price_max, bid_quantity = 10, ask_quantity = 0\<rparr>,
        order_count = 1\<rparr> 1 = Some (Addr 3) \<and>
   replace_order
     \<lparr>stock_locate = 1,
        bids = [(100, \<lparr>pl_price = 100, pl_orders = [3], pl_total_quantity = 10, pl_order_count = 1\<rparr>)],
        asks = [],
        orders =
          \<lparr>entries = [(0, Null), (1, Addr 3), (0, Null), (0, Null),
                      (0, Null), (0, Null), (0, Null), (0, Null)],
             capacity = 8, mask_v = 7, load = 1\<rparr>,
        bbo = \<lparr>bid_price = 100, ask_price = Price_max, bid_quantity = 10, ask_quantity = 0\<rparr>,
        order_count = 1\<rparr> 1 0 7 102 9
     \<lparr>block_size = 4, blocks = 1, free_list = [0, 1, 2],
        store = (\<lambda>_. \<lparr>order_id = 0, price = 0, quantity = 0, original_qty = 0, order_locate = 0,
                        side = Sell, timestamp = 0\<rparr>)
                  (3 := \<lparr>order_id = 1, price = 100, quantity = 10, original_qty = 10, order_locate = 1,
                           side = Buy, timestamp = 1\<rparr>)\<rparr> =
     Some (Addr 3,
       \<lparr>stock_locate = 1,
          bids = [(102, \<lparr>pl_price = 102, pl_orders = [3], pl_total_quantity = 7, pl_order_count = 1\<rparr>)],
          asks = [],
          orders =
            \<lparr>entries = [(0, Addr 3), (0, Addr 3), (0, Null), (0, Null),
                        (0, Null), (0, Null), (0, Null), (0, Null)],
               capacity = 8, mask_v = 7, load = 1\<rparr>,
          bbo = \<lparr>bid_price = 102, ask_price = Price_max, bid_quantity = 7, ask_quantity = 0\<rparr>,
          order_count = 1\<rparr>,
       \<lparr>block_size = 4, blocks = 1, free_list = [0, 1, 2],
          store = (\<lambda>_. \<lparr>order_id = 0, price = 0, quantity = 0, original_qty = 0, order_locate = 0,
                          side = Sell, timestamp = 0\<rparr>)
                    (3 := \<lparr>order_id = 0, price = 102, quantity = 7, original_qty = 7, order_locate = 1,
                             side = Buy, timestamp = 9\<rparr>)\<rparr>) \<and>
   get_order
     \<lparr>stock_locate = 1,
        bids = [(102, \<lparr>pl_price = 102, pl_orders = [3], pl_total_quantity = 7, pl_order_count = 1\<rparr>)],
        asks = [],
        orders =
          \<lparr>entries = [(0, Addr 3), (0, Addr 3), (0, Null), (0, Null),
                      (0, Null), (0, Null), (0, Null), (0, Null)],
             capacity = 8, mask_v = 7, load = 1\<rparr>,
        bbo = \<lparr>bid_price = 102, ask_price = Price_max, bid_quantity = 7, ask_quantity = 0\<rparr>,
        order_count = 1\<rparr> 0 = Some Null"
proof -
  let ?mem = "(\<lambda>_. \<lparr>order_id = 0, price = 0, quantity = 0, original_qty = 0, order_locate = 0,
                      side = Sell, timestamp = 0\<rparr>)"
  let ?m0 = "\<lparr>entries = [(0, Null), (0, Null), (0, Null), (0, Null),
                         (0, Null), (0, Null), (0, Null), (0, Null)],
                capacity = 8, mask_v = 7, load = 0\<rparr>"
  let ?m1 = "\<lparr>entries = [(0, Null), (1, Addr 3), (0, Null), (0, Null),
                         (0, Null), (0, Null), (0, Null), (0, Null)],
                capacity = 8, mask_v = 7, load = 1\<rparr>"
  let ?m2 = "\<lparr>entries = [(0, Null), (1, Addr 3), (2, Addr 2), (0, Null),
                         (0, Null), (0, Null), (0, Null), (0, Null)],
                capacity = 8, mask_v = 7, load = 2\<rparr>"
  let ?m2r = "\<lparr>entries = [(0, Null), (0, Addr 3), (2, Addr 2), (0, Null),
                          (0, Null), (0, Null), (0, Null), (0, Null)],
                 capacity = 8, mask_v = 7, load = 1\<rparr>"
  let ?m1r = "\<lparr>entries = [(0, Null), (0, Addr 3), (0, Null), (0, Null),
                          (0, Null), (0, Null), (0, Null), (0, Null)],
                 capacity = 8, mask_v = 7, load = 0\<rparr>"
  let ?m1z = "\<lparr>entries = [(0, Addr 3), (0, Addr 3), (0, Null), (0, Null),
                          (0, Null), (0, Null), (0, Null), (0, Null)],
                 capacity = 8, mask_v = 7, load = 1\<rparr>"
  let ?b0 = "\<lparr>stock_locate = 1,
                bids = [],
                asks = [],
                orders =
                  \<lparr>entries = [(0, Null), (0, Null), (0, Null), (0, Null),
                              (0, Null), (0, Null), (0, Null), (0, Null)],
                     capacity = 8, mask_v = 7, load = 0\<rparr>,
                bbo = BBO_new,
                order_count = 0\<rparr>"
  let ?b1 = "\<lparr>stock_locate = 1,
                bids = [(100, \<lparr>pl_price = 100, pl_orders = [3], pl_total_quantity = 10, pl_order_count = 1\<rparr>)],
                asks = [],
                orders =
                  \<lparr>entries = [(0, Null), (1, Addr 3), (0, Null), (0, Null),
                              (0, Null), (0, Null), (0, Null), (0, Null)],
                     capacity = 8, mask_v = 7, load = 1\<rparr>,
                bbo = \<lparr>bid_price = 100, ask_price = Price_max, bid_quantity = 10, ask_quantity = 0\<rparr>,
                order_count = 1\<rparr>"
  let ?b2 = "\<lparr>stock_locate = 1,
                bids = [(101, \<lparr>pl_price = 101, pl_orders = [2], pl_total_quantity = 5, pl_order_count = 1\<rparr>),
                        (100, \<lparr>pl_price = 100, pl_orders = [3], pl_total_quantity = 10, pl_order_count = 1\<rparr>)],
                asks = [],
                orders =
                  \<lparr>entries = [(0, Null), (1, Addr 3), (2, Addr 2), (0, Null),
                              (0, Null), (0, Null), (0, Null), (0, Null)],
                     capacity = 8, mask_v = 7, load = 2\<rparr>,
                bbo = \<lparr>bid_price = 101, ask_price = Price_max, bid_quantity = 5, ask_quantity = 0\<rparr>,
                order_count = 2\<rparr>"
  let ?b2r = "\<lparr>stock_locate = 1,
                 bids = [(101, \<lparr>pl_price = 101, pl_orders = [2], pl_total_quantity = 5, pl_order_count = 1\<rparr>)],
                 asks = [],
                 orders =
                   \<lparr>entries = [(0, Null), (0, Addr 3), (2, Addr 2), (0, Null),
                               (0, Null), (0, Null), (0, Null), (0, Null)],
                      capacity = 8, mask_v = 7, load = 1\<rparr>,
                 bbo = \<lparr>bid_price = 101, ask_price = Price_max, bid_quantity = 5, ask_quantity = 0\<rparr>,
                 order_count = 1\<rparr>"
  let ?b1z = "\<lparr>stock_locate = 1,
                 bids = [(102, \<lparr>pl_price = 102, pl_orders = [3], pl_total_quantity = 7, pl_order_count = 1\<rparr>)],
                 asks = [],
                 orders =
                   \<lparr>entries = [(0, Addr 3), (0, Addr 3), (0, Null), (0, Null),
                               (0, Null), (0, Null), (0, Null), (0, Null)],
                      capacity = 8, mask_v = 7, load = 1\<rparr>,
                 bbo = \<lparr>bid_price = 102, ask_price = Price_max, bid_quantity = 7, ask_quantity = 0\<rparr>,
                 order_count = 1\<rparr>"
  let ?p1 = "\<lparr>block_size = 4, blocks = 1, free_list = [0, 1, 2],
                store = (\<lambda>_. \<lparr>order_id = 0, price = 0, quantity = 0, original_qty = 0, order_locate = 0,
                                side = Sell, timestamp = 0\<rparr>)
                          (3 := \<lparr>order_id = 1, price = 100, quantity = 10, original_qty = 10, order_locate = 1,
                                   side = Buy, timestamp = 1\<rparr>)\<rparr>"
  let ?p2 = "\<lparr>block_size = 4, blocks = 1, free_list = [0, 1],
                store = (\<lambda>_. \<lparr>order_id = 0, price = 0, quantity = 0, original_qty = 0, order_locate = 0,
                                side = Sell, timestamp = 0\<rparr>)
                          (3 := \<lparr>order_id = 1, price = 100, quantity = 10, original_qty = 10, order_locate = 1,
                                   side = Buy, timestamp = 1\<rparr>,
                           2 := \<lparr>order_id = 2, price = 101, quantity = 5, original_qty = 5, order_locate = 1,
                                   side = Buy, timestamp = 2\<rparr>)\<rparr>"
  let ?p2r = "\<lparr>block_size = 4, blocks = 1, free_list = [0, 1, 3],
                 store = (\<lambda>_. \<lparr>order_id = 0, price = 0, quantity = 0, original_qty = 0, order_locate = 0,
                                 side = Sell, timestamp = 0\<rparr>)
                           (3 := \<lparr>order_id = 1, price = 100, quantity = 10, original_qty = 10, order_locate = 1,
                                    side = Buy, timestamp = 1\<rparr>,
                            2 := \<lparr>order_id = 2, price = 101, quantity = 5, original_qty = 5, order_locate = 1,
                                    side = Buy, timestamp = 2\<rparr>)\<rparr>"
  let ?p1z = "\<lparr>block_size = 4, blocks = 1, free_list = [0, 1, 2],
                 store = (\<lambda>_. \<lparr>order_id = 0, price = 0, quantity = 0, original_qty = 0, order_locate = 0,
                                 side = Sell, timestamp = 0\<rparr>)
                           (3 := \<lparr>order_id = 0, price = 102, quantity = 7, original_qty = 7, order_locate = 1,
                                    side = Buy, timestamp = 9\<rparr>)\<rparr>"
  have new: "OrderMap_new 8 = Some ?m0"
    by (simp add: OrderMap_new_def OrderMap_resize_def)
      ((subst grow_cap.simps, simp)+, simp add: numeral_eq_Suc)
  have fnd0: "OrderMap_find ?m0 1 = Some Null"
    by (simp add: OrderMap_find_def hash_def) (subst find_loop.simps, simp add: Suc_Suc_0)+
  have put0: "OrderMap_put ?m0 1 (Addr 3) = Some ?m1"
    by (simp add: OrderMap_put_def hash_def) (subst probe_empty.simps, simp add: Suc_Suc_0)+
  have fnd1: "OrderMap_find ?m1 2 = Some Null"
    by (simp add: OrderMap_find_def hash_def) (subst find_loop.simps, simp add: Suc_Suc_0)+
  have put1: "OrderMap_put ?m1 2 (Addr 2) = Some ?m2"
    by (simp add: OrderMap_put_def hash_def) (subst probe_empty.simps, simp add: Suc_Suc_0)+
  have f21: "OrderMap_find ?m2 1 = Some (Addr 3)"
    by (simp add: OrderMap_find_def hash_def) (subst find_loop.simps, simp add: Suc_Suc_0)+
  have rm2: "OrderMap_remove ?m2 1 = Some ?m2r"
    by (simp add: OrderMap_remove_def hash_def)
      ((subst remove_loop.simps, simp add: Suc_Suc_0)+,
       (subst backshift.simps, simp add: Suc_Suc_0 hash_def dec_size_t_def)+)
  have f2r: "OrderMap_find ?m2r 2 = Some (Addr 2)"
    by (simp add: OrderMap_find_def hash_def) (subst find_loop.simps, simp add: Suc_Suc_0)+
  have f11: "OrderMap_find ?m1 1 = Some (Addr 3)"
    by (simp add: OrderMap_find_def hash_def) (subst find_loop.simps, simp add: Suc_Suc_0)+
  have rm1: "OrderMap_remove ?m1 1 = Some ?m1r"
    by (simp add: OrderMap_remove_def hash_def)
      ((subst remove_loop.simps, simp add: Suc_Suc_0)+,
       (subst backshift.simps, simp add: Suc_Suc_0 hash_def dec_size_t_def)+)
  have f1r: "OrderMap_find ?m1r 0 = Some Null"
    by (simp add: OrderMap_find_def hash_def) (subst find_loop.simps, simp add: Suc_Suc_0)+
  have put1r: "OrderMap_put ?m1r 0 (Addr 3) = Some ?m1z"
    by (simp add: OrderMap_put_def hash_def) (subst probe_empty.simps, simp add: Suc_Suc_0)+
  have f1z: "OrderMap_find ?m1z 0 = Some Null"
    by (simp add: OrderMap_find_def hash_def) (subst find_loop.simps, simp add: Suc_Suc_0)+
  have upt: "[0..<4] = [0, 1, 2, 3::nat]" by (simp add: upt_rec)
  have p0: "ObjectPool_new 4 ?mem =
      \<lparr>block_size = 4, blocks = 1, free_list = [0, 1, 2, 3], store = ?mem\<rparr>"
    by (simp add: ObjectPool_new_def allocate_block_def upt)
  have buy: "is_buy Buy" by (simp add: is_buy_def)
  have r0: "OrderBook_reach ?b0 (ObjectPool_new 4 ?mem)"
    using new by (intro reach_book [of 8]) simp_all
  have add1: "add_order ?b0 1 Buy 100 10 1 (ObjectPool_new 4 ?mem) = Some (Addr 3, ?b1, ?p1)"
    unfolding p0 add_order_def
    using fnd0 put0 buy
    by (simp add: acquire_def Let_def side_add_def PriceLevel_new_def
          PriceLevel_add_order_def update_best_bid_def BBO_new_def)
  have add2: "add_order ?b1 2 Buy 101 5 2 ?p1 = Some (Addr 2, ?b2, ?p2)"
    unfolding add_order_def
    using fnd1 put1 buy
    by (simp add: acquire_def Let_def side_add_def PriceLevel_new_def
          PriceLevel_add_order_def update_best_bid_def before_def)
  have r1: "OrderBook_reach ?b1 ?p1" using r0 add1 by (rule reach_add)
  have r2: "OrderBook_reach ?b2 ?p2" using r1 add2 by (rule reach_add)
  have g2: "get_order ?b2 1 = Some (Addr 3)" using f21 by (simp add: get_order_def)
  have g1: "get_order ?b1 1 = Some (Addr 3)" using f11 by (simp add: get_order_def)
  have rep2: "replace_order ?b2 1 2 7 102 9 ?p2 = Some (Null, ?b2r, ?p2r)"
    unfolding replace_order_def delete_order_def add_order_def
    using f21 rm2 f2r buy
    by (simp add: Let_def side_remove_def PriceLevel_remove_order_def PriceLevel_empty_def
          dec_size_t_def map_erase_def update_best_bid_def release_def)
  have g2r: "get_order ?b2r 2 = Some (Addr 2)" using f2r by (simp add: get_order_def)
  have rep1: "replace_order ?b1 1 0 7 102 9 ?p1 = Some (Addr 3, ?b1z, ?p1z)"
    unfolding replace_order_def delete_order_def add_order_def
    using f11 rm1 f1r put1r buy
    by (simp add: Let_def side_remove_def PriceLevel_remove_order_def PriceLevel_empty_def
          dec_size_t_def map_erase_def update_best_bid_def release_def acquire_def
          side_add_def PriceLevel_new_def PriceLevel_add_order_def)
  have g1z: "get_order ?b1z 0 = Some Null" using f1z by (simp add: get_order_def)
  from r2 g2 rep2 g2r r1 g1 rep1 g1z show ?thesis by (intro conjI)
qed

end
